theory Spec2Isabelle
  imports Main "HOL-Library.Sublist" "HOL-Library.AList"
begin

section \<open>Python values: dictionary fields and exceptions\<close>

text \<open>
  The laws are JSON dictionaries with a fixed set of keys. A key of such a dictionary is
  either absent (\<open>Missing\<close>), present with the value \<open>None\<close> (\<open>Null\<close>), or present with
  a value (\<open>Val\<close>). A Python expression whose value may be \<open>None\<close> has an \<open>option\<close> type
  (\<open>None\<close> is Python's \<open>None\<close>); an expression that may raise has the type
  \<open>py_error + 'a\<close>, with \<open>Inl\<close> the exception.
\<close>

datatype py_error = KeyError | TypeError | AttributeError | IndexError | ValueError

datatype 'a field = Missing | Null | Val 'a

text \<open>\<^verbatim>\<open>d.get(k)\<close>: an absent key and a null value both read as \<open>None\<close>.\<close>

fun get :: "'a field \<Rightarrow> 'a option" where
  "get Missing = None"
| "get Null = None"
| "get (Val v) = Some v"

text \<open>\<^verbatim>\<open>d.get(k, default)\<close>: the default stands in for an absent key only.\<close>

fun get_default :: "'a field \<Rightarrow> 'a \<Rightarrow> 'a option" where
  "get_default Missing d = Some d"
| "get_default Null d = None"
| "get_default (Val v) d = Some v"

text \<open>\<^verbatim>\<open>d[k]\<close>: an absent key raises \<open>KeyError\<close>.\<close>

fun subscript :: "'a field \<Rightarrow> py_error + 'a option" where
  "subscript Missing = Inl KeyError"
| "subscript Null = Inr None"
| "subscript (Val v) = Inr (Some v)"

text \<open>\<^verbatim>\<open>for x in v\<close> (also \<^verbatim>\<open>enumerate(v, 1)\<close>): \<open>None\<close> is not iterable.\<close>

fun iterate :: "'a list option \<Rightarrow> py_error + 'a list" where
  "iterate None = Inl TypeError"
| "iterate (Some xs) = Inr xs"

text \<open>\<^verbatim>\<open>v[0]\<close>: \<open>None\<close> is not subscriptable, the empty list has no first element.\<close>

fun first_item :: "'a list option \<Rightarrow> py_error + 'a" where
  "first_item None = Inl TypeError"
| "first_item (Some []) = Inl IndexError"
| "first_item (Some (x # xs)) = Inr x"

text \<open>\<^verbatim>\<open>v.get(k)\<close> on a value that may be \<open>None\<close>: \<open>None\<close> has no attribute \<open>get\<close>.\<close>

fun attr_get :: "'r option \<Rightarrow> ('r \<Rightarrow> 'a field) \<Rightarrow> py_error + 'a option" where
  "attr_get None k = Inl AttributeError"
| "attr_get (Some r) k = Inr (get (k r))"

text \<open>Storing a possibly-\<open>None\<close> value under a key: the key is present.\<close>

fun stored :: "'a option \<Rightarrow> 'a field" where
  "stored None = Null"
| "stored (Some v) = Val v"

section \<open>Strings\<close>

text \<open>An f-string field \<^verbatim>\<open>{v}\<close> of a string or \<open>None\<close>.\<close>

fun format :: "string option \<Rightarrow> string" where
  "format None = ''None''"
| "format (Some s) = s"

text \<open>\<^verbatim>\<open>sep.join(xs)\<close>.\<close>

fun join :: "string \<Rightarrow> string list \<Rightarrow> string" where
  "join sep [] = []"
| "join sep [x] = x"
| "join sep (x # y # ys) = x @ sep @ join sep (y # ys)"

text \<open>
  The decimal digits of a natural number, as \<^verbatim>\<open>str(i)\<close> and \<^verbatim>\<open>f"{i}"\<close> print it; \<open>digit\<close> is
  only applied to numbers below 10.
\<close>

definition digit :: "nat \<Rightarrow> char" where
  "digit d = ''0123456789'' ! d"

fun str_nat :: "nat \<Rightarrow> string" where
  "str_nat n = (if n < 10 then [digit n] else str_nat (n div 10) @ [digit (n mod 10)])"

declare str_nat.simps [simp del]


text \<open>\<^verbatim>\<open>s.split('/')\<close>: the pieces between the separators, never an empty list.\<close>

fun split_on :: "char \<Rightarrow> string \<Rightarrow> string list" where
  "split_on sep [] = [[]]"
| "split_on sep (c # cs) =
     (if c = sep then [] # split_on sep cs
      else (case split_on sep cs of [] \<Rightarrow> [[c]] | p # ps \<Rightarrow> (c # p) # ps))"

section \<open>The document tree\<close>

text \<open>
  The dictionaries of \<^verbatim>\<open>lagen_nu_data.json\<close>, as \<^verbatim>\<open>parse_law\<close> writes them and
  \<^verbatim>\<open>process_law\<close> reads them.
\<close>

record comment_dict =
  comment_text :: "string field"
  comment_type :: "string field"

record amendment_dict =
  amendment_law :: "string field"

record count_dict =
  count :: "int field"

record paragraph_dict =
  paragraph_text :: "string field"
  paragraph_points :: "string list field"

record section_dict =
  section_number :: "string field"
  section_text :: "string field"
  section_comments :: "comment_dict list field"
  section_amendments :: "amendment_dict list field"
  section_case_law :: "count_dict list field"
  section_citations :: "count_dict list field"
  section_paragraphs :: "paragraph_dict list field"

record chapter_dict =
  chapter_number :: "string field"
  chapter_title :: "string field"
  chapter_sections :: "section_dict list field"

record last_amended_dict =
  sfs :: "string field"

record metadata_dict =
  department :: "string field"
  issued_date :: "string field"
  last_amended :: "last_amended_dict field"

record law =
  law_id :: "string field"
  law_title :: "string field"
  law_short_title :: "string field"
  law_metadata_field :: "metadata_dict field"
  law_chapters :: "chapter_dict list field"

text \<open>The empty dictionaries \<^verbatim>\<open>{}\<close> that the flattener uses as defaults.\<close>

definition empty_count :: count_dict where
  "empty_count = \<lparr>count = Missing\<rparr>"

definition empty_last_amended :: last_amended_dict where
  "empty_last_amended = \<lparr>sfs = Missing\<rparr>"

definition empty_metadata :: metadata_dict where
  "empty_metadata = \<lparr>department = Missing, issued_date = Missing, last_amended = Missing\<rparr>"

section \<open>Chunks\<close>

record law_info =
  info_id :: "string option"
  info_title :: "string option"
  info_short_title :: "string option"
  info_department :: "string option"
  info_issued_date :: "string option"
  info_last_amended :: "string option"

text \<open>
  The metadata dictionary of a chunk. The keys \<^verbatim>\<open>path\<close> and \<^verbatim>\<open>law_info\<close> are in every
  chunk; each other key is \<open>Missing\<close> in the kinds of chunk that do not carry it. The
  content of a chunk is a string or \<open>None\<close>.
\<close>

record chunk_metadata =
  meta_path :: string
  meta_law_info :: law_info
  meta_chapter_title :: "string field"
  meta_section_number :: "string field"
  meta_amendments :: "string option list field"
  meta_case_law_count :: "int field"
  meta_citations_count :: "int field"
  meta_comment_type :: "string field"

record chunk =
  content :: "string option"
  metadata :: chunk_metadata

section \<open>The tree flattener: \<^verbatim>\<open>split_documents\<close> and its \<^verbatim>\<open>process_law\<close>\<close>

definition path_sep :: string where
  "path_sep = '' > ''"

text \<open>The \<^verbatim>\<open>law_metadata\<close> dictionary that \<^verbatim>\<open>process_law\<close> builds first.\<close>

definition law_metadata :: "law \<Rightarrow> py_error + law_info" where
  "law_metadata law =
     (case attr_get (get_default (law_metadata_field law) empty_metadata) department of
        Inl e \<Rightarrow> Inl e
      | Inr dep \<Rightarrow>
     (case attr_get (get_default (law_metadata_field law) empty_metadata) issued_date of
        Inl e \<Rightarrow> Inl e
      | Inr issued \<Rightarrow>
     (case get_default (law_metadata_field law) empty_metadata of
        None \<Rightarrow> Inl AttributeError
      | Some m \<Rightarrow>
     (case attr_get (get_default (last_amended m) empty_last_amended) sfs of
        Inl e \<Rightarrow> Inl e
      | Inr amended \<Rightarrow>
          Inr \<lparr>info_id = get (law_id law), info_title = get (law_title law),
               info_short_title = get (law_short_title law), info_department = dep,
               info_issued_date = issued, info_last_amended = amended\<rparr>))))"

text \<open>The four chunk dictionaries.\<close>

definition section_chunk ::
  "law_info \<Rightarrow> chapter_dict \<Rightarrow> section_dict \<Rightarrow> string list \<Rightarrow> py_error + chunk" where
  "section_chunk info chapter section section_path =
     (case iterate (get_default (section_amendments section) []) of
        Inl e \<Rightarrow> Inl e
      | Inr amendments \<Rightarrow>
     (case first_item (get_default (section_case_law section) [empty_count]) of
        Inl e \<Rightarrow> Inl e
      | Inr case_law \<Rightarrow>
     (case first_item (get_default (section_citations section) [empty_count]) of
        Inl e \<Rightarrow> Inl e
      | Inr citations \<Rightarrow>
          Inr \<lparr>content = get_default (section_text section) [],
               metadata = \<lparr>meta_path = join path_sep section_path, meta_law_info = info,
                 meta_chapter_title = stored (get (chapter_title chapter)),
                 meta_section_number = stored (get (section_number section)),
                 meta_amendments = Val (map (\<lambda>a. get (amendment_law a)) amendments),
                 meta_case_law_count = stored (get_default (count case_law) 0),
                 meta_citations_count = stored (get_default (count citations) 0),
                 meta_comment_type = Missing\<rparr>\<rparr>)))"

definition comment_chunk ::
  "law_info \<Rightarrow> section_dict \<Rightarrow> string list \<Rightarrow> comment_dict \<Rightarrow> chunk" where
  "comment_chunk info section section_path comment =
     \<lparr>content = get_default (comment_text comment) [],
      metadata = \<lparr>meta_path = join path_sep (section_path @ [''Comment'']), meta_law_info = info,
        meta_chapter_title = Missing,
        meta_section_number = stored (get (section_number section)),
        meta_amendments = Missing, meta_case_law_count = Missing,
        meta_citations_count = Missing,
        meta_comment_type = stored (get (comment_type comment))\<rparr>\<rparr>"

definition para_chunk ::
  "law_info \<Rightarrow> section_dict \<Rightarrow> string list \<Rightarrow> nat \<Rightarrow> paragraph_dict \<Rightarrow> chunk" where
  "para_chunk info section section_path i paragraph =
     \<lparr>content = get_default (paragraph_text paragraph) [],
      metadata = \<lparr>meta_path = join path_sep (section_path @ [''Paragraph '' @ str_nat i]),
        meta_law_info = info, meta_chapter_title = Missing,
        meta_section_number = stored (get (section_number section)),
        meta_amendments = Missing, meta_case_law_count = Missing,
        meta_citations_count = Missing, meta_comment_type = Missing\<rparr>\<rparr>"

definition point_chunk ::
  "law_info \<Rightarrow> section_dict \<Rightarrow> string list \<Rightarrow> nat \<Rightarrow> nat \<Rightarrow> string \<Rightarrow> chunk" where
  "point_chunk info section section_path i j point =
     \<lparr>content = Some point,
      metadata = \<lparr>meta_path = join path_sep (section_path @
          [''Paragraph '' @ str_nat i, ''Point '' @ str_nat j]),
        meta_law_info = info, meta_chapter_title = Missing,
        meta_section_number = stored (get (section_number section)),
        meta_amendments = Missing, meta_case_law_count = Missing,
        meta_citations_count = Missing, meta_comment_type = Missing\<rparr>\<rparr>"

text \<open>
  The loops. Each takes the list \<^verbatim>\<open>chunks\<close> built so far and returns it with the chunks
  it appended; an exception leaves the loop at once.
\<close>

fun process_comments ::
  "law_info \<Rightarrow> section_dict \<Rightarrow> string list \<Rightarrow> comment_dict list \<Rightarrow> chunk list \<Rightarrow> chunk list" where
  "process_comments info section section_path [] chunks = chunks"
| "process_comments info section section_path (comment # rest) chunks =
     process_comments info section section_path rest
       (chunks @ [comment_chunk info section section_path comment])"

fun process_points ::
  "law_info \<Rightarrow> section_dict \<Rightarrow> string list \<Rightarrow> nat \<Rightarrow> nat \<Rightarrow> string list \<Rightarrow> chunk list
     \<Rightarrow> chunk list" where
  "process_points info section section_path i j [] chunks = chunks"
| "process_points info section section_path i j (point # rest) chunks =
     process_points info section section_path i (Suc j) rest
       (chunks @ [point_chunk info section section_path i j point])"

fun process_paragraphs ::
  "law_info \<Rightarrow> section_dict \<Rightarrow> string list \<Rightarrow> nat \<Rightarrow> paragraph_dict list \<Rightarrow> chunk list
     \<Rightarrow> py_error + chunk list" where
  "process_paragraphs info section section_path i [] chunks = Inr chunks"
| "process_paragraphs info section section_path i (paragraph # rest) chunks =
     (case iterate (get_default (paragraph_points paragraph) []) of
        Inl e \<Rightarrow> Inl e
      | Inr points \<Rightarrow>
          process_paragraphs info section section_path (Suc i) rest
            (process_points info section section_path i 1 points
               (chunks @ [para_chunk info section section_path i paragraph])))"

text \<open>The body of the loop over the sections of a chapter.\<close>

definition process_section ::
  "law_info \<Rightarrow> chapter_dict \<Rightarrow> string list \<Rightarrow> section_dict \<Rightarrow> chunk list
     \<Rightarrow> py_error + chunk list" where
  "process_section info chapter chapter_path section chunks =
     (case subscript (section_number section) of
        Inl e \<Rightarrow> Inl e
      | Inr number \<Rightarrow>
     (case section_chunk info chapter section
             (chapter_path @ [''Section '' @ format number]) of
        Inl e \<Rightarrow> Inl e
      | Inr chunk \<Rightarrow>
     (case iterate (get_default (section_comments section) []) of
        Inl e \<Rightarrow> Inl e
      | Inr comments \<Rightarrow>
     (case iterate (get_default (section_paragraphs section) []) of
        Inl e \<Rightarrow> Inl e
      | Inr paragraphs \<Rightarrow>
          process_paragraphs info section
            (chapter_path @ [''Section '' @ format number]) 1 paragraphs
            (process_comments info section
               (chapter_path @ [''Section '' @ format number]) comments
               (chunks @ [chunk]))))))"

fun process_sections ::
  "law_info \<Rightarrow> chapter_dict \<Rightarrow> string list \<Rightarrow> section_dict list \<Rightarrow> chunk list
     \<Rightarrow> py_error + chunk list" where
  "process_sections info chapter chapter_path [] chunks = Inr chunks"
| "process_sections info chapter chapter_path (section # rest) chunks =
     (case process_section info chapter chapter_path section chunks of
        Inl e \<Rightarrow> Inl e
      | Inr chunks' \<Rightarrow> process_sections info chapter chapter_path rest chunks')"

text \<open>The body of the loop over the chapters of a law.\<close>

definition process_chapter ::
  "law_info \<Rightarrow> string list \<Rightarrow> chapter_dict \<Rightarrow> chunk list \<Rightarrow> py_error + chunk list" where
  "process_chapter info path chapter chunks =
     (case subscript (chapter_number chapter) of
        Inl e \<Rightarrow> Inl e
      | Inr number \<Rightarrow>
     (case iterate (get_default (chapter_sections chapter) []) of
        Inl e \<Rightarrow> Inl e
      | Inr sections \<Rightarrow>
          process_sections info chapter (path @ [''Chapter '' @ format number])
            sections chunks))"

fun process_chapters ::
  "law_info \<Rightarrow> string list \<Rightarrow> chapter_dict list \<Rightarrow> chunk list \<Rightarrow> py_error + chunk list" where
  "process_chapters info path [] chunks = Inr chunks"
| "process_chapters info path (chapter # rest) chunks =
     (case process_chapter info path chapter chunks of
        Inl e \<Rightarrow> Inl e
      | Inr chunks' \<Rightarrow> process_chapters info path rest chunks')"

definition process_law :: "law \<Rightarrow> string list \<Rightarrow> chunk list \<Rightarrow> py_error + chunk list" where
  "process_law law path chunks =
     (case law_metadata law of
        Inl e \<Rightarrow> Inl e
      | Inr info \<Rightarrow>
     (case iterate (get_default (law_chapters law) []) of
        Inl e \<Rightarrow> Inl e
      | Inr chapters \<Rightarrow> process_chapters info path chapters chunks))"

text \<open>
  The corpus \<^verbatim>\<open>{<category>: {<law name>: <law>}}\<close>. A Python dictionary keeps its keys in
  insertion order and \<^verbatim>\<open>items()\<close> lists them so: an association list.
\<close>

type_synonym category_dict = "(string \<times> law) list"

type_synonym corpus = "(string \<times> category_dict) list"

record lagen_dict =
  lagar :: "corpus field"

record legal_data =
  lagen :: "lagen_dict field"

definition empty_lagen :: lagen_dict where
  "empty_lagen = \<lparr>lagar = Missing\<rparr>"

text \<open>\<^verbatim>\<open>v.items()\<close>: \<open>None\<close> has no attribute \<open>items\<close>.\<close>

fun items :: "('k \<times> 'v) list option \<Rightarrow> py_error + ('k \<times> 'v) list" where
  "items None = Inl AttributeError"
| "items (Some kvs) = Inr kvs"

fun process_laws :: "string \<Rightarrow> category_dict \<Rightarrow> chunk list \<Rightarrow> py_error + chunk list" where
  "process_laws category [] chunks = Inr chunks"
| "process_laws category ((law_name, law_content) # rest) chunks =
     (case process_law law_content [category, law_name] chunks of
        Inl e \<Rightarrow> Inl e
      | Inr chunks' \<Rightarrow> process_laws category rest chunks')"

fun process_categories :: "corpus \<Rightarrow> chunk list \<Rightarrow> py_error + chunk list" where
  "process_categories [] chunks = Inr chunks"
| "process_categories ((category, laws) # rest) chunks =
     (case process_laws category laws chunks of
        Inl e \<Rightarrow> Inl e
      | Inr chunks' \<Rightarrow> process_categories rest chunks')"

definition split_documents :: "legal_data \<Rightarrow> py_error + chunk list" where
  "split_documents data =
     (case get_default (lagen data) empty_lagen of
        None \<Rightarrow> Inl AttributeError
      | Some l \<Rightarrow>
     (case items (get_default (lagar l) []) of
        Inl e \<Rightarrow> Inl e
      | Inr categories \<Rightarrow> process_categories categories []))"

text \<open>
  The call \<^verbatim>\<open>process_law(law_content, [category, law_name])\<close> of \<^verbatim>\<open>split_documents\<close>, on an
  empty list of chunks: the flattening of one law.
\<close>

definition flatten :: "string \<Rightarrow> string \<Rightarrow> law \<Rightarrow> py_error + chunk list" where
  "flatten category law_name law = process_law law [category, law_name] []"

section \<open>The spider: link classifier, document model builder, corpus\<close>

subsection \<open>\<^verbatim>\<open>parse\<close>: which links are followed\<close>














subsection \<open>The corpus \<^verbatim>\<open>self.data["lagen"]["lagar"]\<close>\<close>

definition init_data :: corpus where
  "init_data = []"

text \<open>\<^verbatim>\<open>url.split('/')[-1]\<close>.\<close>

definition last_segment :: "string \<Rightarrow> string" where
  "last_segment url = last (split_on CHR ''/'' url)"

text \<open>
  \<^verbatim>\<open>parse_category\<close>: the corpus with the category's dictionary set to \<^verbatim>\<open>{}\<close>, which
  happens before the loop, and the law links the loop hands to \<^verbatim>\<open>response.follow\<close>, in
  order, each with the category for its \<^verbatim>\<open>meta\<close>.
\<close>

definition parse_category ::
  "corpus \<Rightarrow> string \<Rightarrow> string list \<Rightarrow> corpus \<times> (string \<times> string) list" where
  "parse_category data url hrefs =
     (AList.update (last_segment url) [] data,
      map (\<lambda>href. (href, last_segment url))
        (filter (\<lambda>href. \<not> suffix ''.png'' href) hrefs))"

text \<open>
  The assignment \<^verbatim>\<open>self.data["lagen"]["lagar"][category][law_name] = law\<close>: the lookup of
  the category raises \<open>KeyError\<close> when no category page has set it.
\<close>

definition insert_law :: "corpus \<Rightarrow> string \<Rightarrow> string \<Rightarrow> law \<Rightarrow> py_error + corpus" where
  "insert_law data category law_name law =
     (case map_of data category of
        None \<Rightarrow> Inl KeyError
      | Some laws \<Rightarrow> Inr (AList.update category (AList.update law_name law laws) data))"

definition lookup_law :: "corpus \<Rightarrow> string \<Rightarrow> string \<Rightarrow> law option" where
  "lookup_law data category law_name =
     (case map_of data category of
        None \<Rightarrow> None
      | Some laws \<Rightarrow> map_of laws law_name)"

subsection \<open>\<^verbatim>\<open>parse_law\<close>: the document model builder\<close>

text \<open>
  A law page, as the selectors of \<^verbatim>\<open>parse_law\<close> read it: \<^verbatim>\<open>.get()\<close> gives the first
  match or \<open>None\<close>, \<^verbatim>\<open>.getall()\<close> the list of matches, \<^verbatim>\<open>len\<close> their number.
\<close>

record paragraph_el =
  el_text :: "string option"
  el_li_texts :: "string list"

record section_el =
  el_h3 :: "string option"
  el_p :: "string option"
  el_comments :: "string list"
  el_amendments :: "string list"
  el_case_law_references :: nat
  el_citation_references :: nat
  el_paragraphs :: "paragraph_el list"

record chapter_el =
  el_h2 :: "string option"
  el_h2_small :: "string option"
  el_sections :: "section_el list"

record law_page =
  page_url :: string
  page_category :: string
  page_h1 :: "string option"
  page_h1_small :: "string option"
  page_department :: "string option"
  page_issued_date :: "string option"
  page_last_amended :: "string option"
  page_chapters :: "chapter_el list"

definition build_paragraph :: "paragraph_el \<Rightarrow> paragraph_dict" where
  "build_paragraph paragraph =
     \<lparr>paragraph_text = stored (el_text paragraph),
      paragraph_points = Val (el_li_texts paragraph)\<rparr>"

definition build_section :: "section_el \<Rightarrow> section_dict" where
  "build_section section =
     \<lparr>section_number = stored (el_h3 section),
      section_text = stored (el_p section),
      section_comments =
        Val (map (\<lambda>comment. \<lparr>comment_text = Val comment, comment_type = Val ''explanation''\<rparr>)
               (el_comments section)),
      section_amendments =
        Val (map (\<lambda>amendment. \<lparr>amendment_law = Val amendment\<rparr>) (el_amendments section)),
      section_case_law = Val [\<lparr>count = Val (int (el_case_law_references section))\<rparr>],
      section_citations = Val [\<lparr>count = Val (int (el_citation_references section))\<rparr>],
      section_paragraphs = Val (map build_paragraph (el_paragraphs section))\<rparr>"

definition build_chapter :: "chapter_el \<Rightarrow> chapter_dict" where
  "build_chapter chapter =
     \<lparr>chapter_number = stored (el_h2 chapter),
      chapter_title = stored (el_h2_small chapter),
      chapter_sections = Val (map build_section (el_sections chapter))\<rparr>"

definition build_law :: "law_page \<Rightarrow> law" where
  "build_law response =
     \<lparr>law_id = Val (last_segment (page_url response)),
      law_title = stored (page_h1 response),
      law_short_title = stored (page_h1_small response),
      law_metadata_field =
        Val \<lparr>department = stored (page_department response),
             issued_date = stored (page_issued_date response),
             last_amended = Val \<lparr>sfs = stored (page_last_amended response)\<rparr>\<rparr>,
      law_chapters = Val (map build_chapter (page_chapters response))\<rparr>"

definition parse_law :: "corpus \<Rightarrow> law_page \<Rightarrow> py_error + corpus" where
  "parse_law data response =
     insert_law data (page_category response) (last_segment (page_url response))
       (build_law response)"

text \<open>The pages the crawl hands to the two callbacks that write the corpus.\<close>

datatype page = CategoryPage string "string list" | LawPage law_page

fun callback :: "corpus \<Rightarrow> page \<Rightarrow> py_error + corpus" where
  "callback data (CategoryPage url hrefs) = Inr (fst (parse_category data url hrefs))"
| "callback data (LawPage response) = parse_law data response"

text \<open>\<^verbatim>\<open>closed\<close> writes \<^verbatim>\<open>self.data\<close>, which \<^verbatim>\<open>split_documents\<close> later reads.\<close>

definition saved_data :: "corpus \<Rightarrow> legal_data" where
  "saved_data data = \<lparr>lagen = Val \<lparr>lagar = Val data\<rparr>\<rparr>"

section \<open>Describing the output\<close>

subsection \<open>The output in document order\<close>

text \<open>
  The list under a key of a dictionary, empty when the key is absent.
\<close>

fun listed :: "'a list field \<Rightarrow> 'a list" where
  "listed (Val xs) = xs"
| "listed Missing = []"
| "listed Null = []"

text \<open>
  What the specification says the flattener emits, written without the loops: for a
  paragraph and its index, the paragraph chunk and then the point chunks, the points
  counted from 1 with \<^verbatim>\<open>enumerate\<close>.
\<close>

definition paragraph_output ::
  "law_info \<Rightarrow> section_dict \<Rightarrow> string list \<Rightarrow> nat \<times> paragraph_dict \<Rightarrow> chunk list" where
  "paragraph_output info section section_path ip =
     para_chunk info section section_path (fst ip) (snd ip) #
     map (\<lambda>jp. point_chunk info section section_path (fst ip) (fst jp) (snd jp))
       (enumerate 1 (listed (paragraph_points (snd ip))))"

text \<open>
  For a section: the section chunk, the comment chunks in the order of the comments, then
  the paragraphs in order, counted from 1.
\<close>

definition section_output ::
  "law_info \<Rightarrow> chapter_dict \<Rightarrow> string list \<Rightarrow> section_dict \<Rightarrow> chunk list" where
  "section_output info chapter chapter_path section =
     (case section_chunk info chapter section
             (chapter_path @ [''Section '' @ format (get (section_number section))]) of
        Inl e \<Rightarrow> []
      | Inr chunk \<Rightarrow> [chunk]) @
     map (comment_chunk info section
            (chapter_path @ [''Section '' @ format (get (section_number section))]))
       (listed (section_comments section)) @
     concat (map (paragraph_output info section
                    (chapter_path @ [''Section '' @ format (get (section_number section))]))
               (enumerate 1 (listed (section_paragraphs section))))"

text \<open>
  For a chapter and for a law: the sections in order, the chapters in order.
\<close>

definition chapter_output :: "law_info \<Rightarrow> string list \<Rightarrow> chapter_dict \<Rightarrow> chunk list" where
  "chapter_output info path chapter =
     concat (map (section_output info chapter
                    (path @ [''Chapter '' @ format (get (chapter_number chapter))]))
               (listed (chapter_sections chapter)))"

definition law_output :: "law \<Rightarrow> string list \<Rightarrow> chunk list" where
  "law_output law path =
     (case law_metadata law of
        Inl e \<Rightarrow> []
      | Inr info \<Rightarrow> concat (map (chapter_output info path) (listed (law_chapters law))))"

text \<open>
  The number of chunks the specification gives for a law: per section one, plus one per
  comment, one per paragraph and one per point.
\<close>

definition chunk_count :: "law \<Rightarrow> nat" where
  "chunk_count law =
     (\<Sum>chapter \<leftarrow> listed (law_chapters law).
        \<Sum>section \<leftarrow> listed (chapter_sections chapter).
          1 + length (listed (section_comments section)) +
          length (listed (section_paragraphs section)) +
          (\<Sum>paragraph \<leftarrow> listed (section_paragraphs section).
             length (listed (paragraph_points paragraph))))"

text \<open>
  The \<^verbatim>\<open>path\<close> of every chunk of a list.
\<close>

definition chunk_paths :: "chunk list \<Rightarrow> string list" where
  "chunk_paths chunks = map (\<lambda>c. meta_path (metadata c)) chunks"

subsection \<open>The laws on which the flattener returns\<close>

text \<open>
  The shape a law needs for \<^verbatim>\<open>process_law\<close> to return: no list that is iterated is null,
  no \<^verbatim>\<open>number\<close> key that is subscripted is absent, \<^verbatim>\<open>case_law\<close> and \<^verbatim>\<open>citations\<close> are absent
  or non-empty lists, and the metadata dictionaries are not null.
\<close>

definition paragraph_ok :: "paragraph_dict \<Rightarrow> bool" where
  "paragraph_ok p = (paragraph_points p \<noteq> Null)"

definition counted :: "count_dict list field \<Rightarrow> bool" where
  "counted f = (f \<noteq> Null \<and> f \<noteq> Val [])"

definition section_ok :: "section_dict \<Rightarrow> bool" where
  "section_ok s =
     (section_number s \<noteq> Missing \<and> section_amendments s \<noteq> Null \<and>
      counted (section_case_law s) \<and> counted (section_citations s) \<and>
      section_comments s \<noteq> Null \<and> section_paragraphs s \<noteq> Null \<and>
      list_all paragraph_ok (listed (section_paragraphs s)))"

definition chapter_ok :: "chapter_dict \<Rightarrow> bool" where
  "chapter_ok c =
     (chapter_number c \<noteq> Missing \<and> chapter_sections c \<noteq> Null \<and>
      list_all section_ok (listed (chapter_sections c)))"

definition metadata_ok :: "law \<Rightarrow> bool" where
  "metadata_ok law =
     (case law_metadata_field law of
        Missing \<Rightarrow> True
      | Null \<Rightarrow> False
      | Val m \<Rightarrow> last_amended m \<noteq> Null)"

definition well_shaped :: "law \<Rightarrow> bool" where
  "well_shaped law =
     (metadata_ok law \<and> law_chapters law \<noteq> Null \<and>
      list_all chapter_ok (listed (law_chapters law)))"

subsection \<open>The corpus as a list of laws\<close>

text \<open>
  The results of flattening several laws, put together: the chunk lists concatenated, or
  the first exception.
\<close>

fun prepend :: "'a list \<Rightarrow> py_error + 'a list \<Rightarrow> py_error + 'a list" where
  "prepend xs (Inl e) = Inl e"
| "prepend xs (Inr ys) = Inr (xs @ ys)"

fun concat_results :: "(py_error + 'a list) list \<Rightarrow> py_error + 'a list" where
  "concat_results [] = Inr []"
| "concat_results (Inl e # rest) = Inl e"
| "concat_results (Inr xs # rest) = prepend xs (concat_results rest)"

text \<open>
  The (category, law name, law) triples of a corpus, in the order of \<^verbatim>\<open>items()\<close>.
\<close>

definition triples :: "corpus \<Rightarrow> (string \<times> string \<times> law) list" where
  "triples data =
     concat (map (\<lambda>cl. map (\<lambda>nl. (fst cl, fst nl, snd nl)) (snd cl)) data)"

subsection \<open>The link rule of the specification\<close>




subsection \<open>The parts of a path\<close>

text \<open>
  What a path has after its section: nothing for the section chunk, \<^verbatim>\<open>Comment\<close> for a
  comment chunk, the paragraph index, or the paragraph and point indices.
\<close>

datatype crumb = SectionCrumb | CommentCrumb | ParagraphCrumb nat | PointCrumb nat nat

fun crumb_text :: "crumb \<Rightarrow> string" where
  "crumb_text SectionCrumb = []"
| "crumb_text CommentCrumb = '' > Comment''"
| "crumb_text (ParagraphCrumb i) = '' > Paragraph '' @ str_nat i"
| "crumb_text (PointCrumb i j) = '' > Paragraph '' @ str_nat i @ '' > Point '' @ str_nat j"

definition paragraph_crumbs :: "nat \<times> paragraph_dict \<Rightarrow> crumb list" where
  "paragraph_crumbs ip =
     ParagraphCrumb (fst ip) #
     map (\<lambda>jp. PointCrumb (fst ip) (fst jp)) (enumerate 1 (listed (paragraph_points (snd ip))))"

definition section_crumbs :: "section_dict \<Rightarrow> crumb list" where
  "section_crumbs s =
     SectionCrumb # map (\<lambda>c. CommentCrumb) (listed (section_comments s)) @
     concat (map paragraph_crumbs (enumerate 1 (listed (section_paragraphs s))))"

text \<open>
  A path is the joined \<^verbatim>\<open>path\<close> argument, then the chapter number, the section number and
  the crumb.
\<close>

definition key_text :: "string \<Rightarrow> string \<Rightarrow> crumb \<Rightarrow> string" where
  "key_text cn sn k = ''Chapter '' @ cn @ '' > Section '' @ sn @ crumb_text k"

definition path_prefix :: "string list \<Rightarrow> string" where
  "path_prefix path = concat (map (\<lambda>p. p @ path_sep) path)"

text \<open>
  The sections of a law with their chapters, in document order, and the two numbers of a
  section as \<^verbatim>\<open>process_law\<close> prints them into the paths.
\<close>

definition law_sections :: "law \<Rightarrow> (chapter_dict \<times> section_dict) list" where
  "law_sections law =
     concat (map (\<lambda>ch. map (\<lambda>s. (ch, s)) (listed (chapter_sections ch)))
               (listed (law_chapters law)))"

definition printed_numbers :: "chapter_dict \<times> section_dict \<Rightarrow> string \<times> string" where
  "printed_numbers cs =
     (format (get (chapter_number (fst cs))), format (get (section_number (snd cs))))"

definition section_keys :: "chapter_dict \<times> section_dict \<Rightarrow> ((string \<times> string) \<times> crumb) list" where
  "section_keys cs = map (\<lambda>k. (printed_numbers cs, k)) (section_crumbs (snd cs))"

definition render_key :: "string list \<Rightarrow> (string \<times> string) \<times> crumb \<Rightarrow> string" where
  "render_key path nk = path_prefix path @ key_text (fst (fst nk)) (snd (fst nk)) (snd nk)"

text \<open>
  A law whose paths cannot coincide: no two sections print the same pair of numbers, no
  printed number contains the character \<^verbatim>\<open>>\<close> of the separator, and no section has more
  than one comment.
\<close>

definition unambiguous :: "law \<Rightarrow> bool" where
  "unambiguous law =
     (distinct (map printed_numbers (law_sections law)) \<and>
      list_all (\<lambda>cs. CHR ''>'' \<notin> set (fst (printed_numbers cs)) \<and>
                      CHR ''>'' \<notin> set (snd (printed_numbers cs)) \<and>
                      length (listed (section_comments (snd cs))) \<le> 1)
        (law_sections law))"

subsection \<open>Example pages and laws\<close>

text \<open>
  A page with one chapter and one section numbered 5, with a text, one comment and one
  paragraph of two points; the law the builder writes for it; a law with no chapters.
\<close>

definition example_page :: law_page where
  "example_page =
     \<lparr>page_url = ''https://lagen.nu/1998:204'', page_category = ''sfs'',
      page_h1 = Some ''Personuppgiftslag'', page_h1_small = None,
      page_department = Some ''Justitiedepartementet'', page_issued_date = None,
      page_last_amended = None,
      page_chapters =
        [\<lparr>el_h2 = Some ''1'', el_h2_small = None,
          el_sections =
            [\<lparr>el_h3 = Some ''5'', el_p = Some ''No one shall...'',
              el_comments = [''See prop. 1998 for context''], el_amendments = [],
              el_case_law_references = 2, el_citation_references = 0,
              el_paragraphs =
                [\<lparr>el_text = Some ''The following applies'',
                  el_li_texts = [''first'', ''second'']\<rparr>]\<rparr>]\<rparr>]\<rparr>"

definition example_law :: law where
  "example_law = build_law example_page"

definition empty_law :: law where
  "empty_law =
     \<lparr>law_id = Val ''1998:204'', law_title = Null, law_short_title = Null,
      law_metadata_field = Missing, law_chapters = Val []\<rparr>"

definition example_corpus :: corpus where
  "example_corpus = [(''sfs'', [(''1998:204'', example_law), (''empty'', empty_law)])]"

definition example_law_page_data :: corpus where
  "example_law_page_data = [(''sfs'', [(''1998:204'', example_law)])]"

text \<open>
  Law dictionaries with an absent \<^verbatim>\<open>number\<close> key or a null \<^verbatim>\<open>metadata\<close>, and a page whose
  section and paragraph have no text.
\<close>

definition law_without_chapter_number :: law where
  "law_without_chapter_number =
     \<lparr>law_id = Val ''1998:204'', law_title = Val ''Personuppgiftslag'',
      law_short_title = Null, law_metadata_field = Missing,
      law_chapters =
        Val [\<lparr>chapter_number = Missing, chapter_title = Val ''Allmanna bestammelser'',
              chapter_sections = Val []\<rparr>]\<rparr>"

definition law_without_section_number :: law where
  "law_without_section_number =
     \<lparr>law_id = Val ''1998:204'', law_title = Val ''Personuppgiftslag'',
      law_short_title = Null, law_metadata_field = Missing,
      law_chapters =
        Val [\<lparr>chapter_number = Val ''1'', chapter_title = Null,
              chapter_sections =
                Val [\<lparr>section_number = Missing, section_text = Val ''No one shall...'',
                      section_comments = Missing, section_amendments = Missing,
                      section_case_law = Missing, section_citations = Missing,
                      section_paragraphs = Missing\<rparr>]\<rparr>]\<rparr>"

definition law_with_null_metadata :: law where
  "law_with_null_metadata =
     \<lparr>law_id = Val ''1998:204'', law_title = Val ''Personuppgiftslag'',
      law_short_title = Null, law_metadata_field = Null, law_chapters = Val []\<rparr>"

definition page_without_text :: law_page where
  "page_without_text =
     \<lparr>page_url = ''https://lagen.nu/1998:204'', page_category = ''sfs'',
      page_h1 = Some ''Personuppgiftslag'', page_h1_small = None,
      page_department = None, page_issued_date = None, page_last_amended = None,
      page_chapters =
        [\<lparr>el_h2 = Some ''1'', el_h2_small = None,
          el_sections =
            [\<lparr>el_h3 = Some ''5'', el_p = None, el_comments = [], el_amendments = [],
              el_case_law_references = 0, el_citation_references = 0,
              el_paragraphs = [\<lparr>el_text = None, el_li_texts = []\<rparr>]\<rparr>]\<rparr>]\<rparr>"

text \<open>
  Pages whose paths coincide: a section with two comments, two chapters with the same
  number, a section number that contains the separator.
\<close>

definition simple_section :: "string \<Rightarrow> string list \<Rightarrow> section_el" where
  "simple_section number comments =
     \<lparr>el_h3 = Some number, el_p = Some ''No one shall...'', el_comments = comments,
      el_amendments = [], el_case_law_references = 0, el_citation_references = 0,
      el_paragraphs = []\<rparr>"

definition simple_page :: "chapter_el list \<Rightarrow> law_page" where
  "simple_page chapters =
     \<lparr>page_url = ''https://lagen.nu/1998:204'', page_category = ''sfs'',
      page_h1 = Some ''Personuppgiftslag'', page_h1_small = None,
      page_department = None, page_issued_date = None, page_last_amended = None,
      page_chapters = chapters\<rparr>"

definition two_comments_page :: law_page where
  "two_comments_page =
     simple_page
       [\<lparr>el_h2 = Some ''1'', el_h2_small = None,
         el_sections = [simple_section ''5'' [''See prop. 1998'', ''See also 2 kap.'']]\<rparr>]"

definition shared_number_page :: law_page where
  "shared_number_page =
     simple_page
       [\<lparr>el_h2 = Some ''1'', el_h2_small = Some ''Inledning'',
         el_sections = [simple_section ''1'' []]\<rparr>,
        \<lparr>el_h2 = Some ''1'', el_h2_small = Some ''Bilaga'',
         el_sections = [simple_section ''1'' []]\<rparr>]"

definition separator_page :: law_page where
  "separator_page =
     simple_page
       [\<lparr>el_h2 = Some ''1'', el_h2_small = None,
         el_sections = [simple_section ''2'' [''See prop. 1998''],
                        simple_section ''2 > Comment'' []]\<rparr>]"

section \<open>Strings\<close>

lemma digit_mem: "d < 10 \<Longrightarrow> digit d \<in> set ''0123456789''"
  unfolding digit_def by (rule nth_mem) simp

lemma digit_inj: "d < 10 \<Longrightarrow> e < 10 \<Longrightarrow> digit d = digit e \<Longrightarrow> d = e"
  unfolding digit_def
  by (subst (asm) nth_eq_iff_index_eq) simp_all

lemma str_nat_digits: "set (str_nat n) \<subseteq> set ''0123456789''"
proof (induction n rule: str_nat.induct)
  case (1 n)
  show ?case
  proof (cases "n < 10")
    case True
    then show ?thesis
      using digit_mem [of n] by (subst str_nat.simps) simp
  next
    case False
    have "n mod 10 < 10" by simp
    from digit_mem [OF this] 1 [OF False] False show ?thesis
      by (subst str_nat.simps) simp
  qed
qed

lemma str_nat_not_Nil: "str_nat n \<noteq> []"
  by (subst str_nat.simps) simp

lemma str_nat_inj: "str_nat m = str_nat n \<Longrightarrow> m = n"
proof (induction m arbitrary: n rule: str_nat.induct)
  case (1 m)
  show ?case
  proof (cases "m < 10")
    case True
    note m = this
    show ?thesis
    proof (cases "n < 10")
      case True
      with m "1.prems" have "digit m = digit n"
        by (simp add: str_nat.simps [of m] str_nat.simps [of n])
      with m True show ?thesis by (rule digit_inj)
    next
      case False
      with m "1.prems" have "str_nat (n div 10) = []"
        by (simp add: str_nat.simps [of m] str_nat.simps [of n])
      with str_nat_not_Nil show ?thesis by simp
    qed
  next
    case False
    note m = this
    show ?thesis
    proof (cases "n < 10")
      case True
      with m "1.prems" have "str_nat (m div 10) = []"
        by (simp add: str_nat.simps [of m] str_nat.simps [of n])
      with str_nat_not_Nil show ?thesis by simp
    next
      case False
      with m "1.prems" have a: "str_nat (m div 10) = str_nat (n div 10)"
        and b: "digit (m mod 10) = digit (n mod 10)"
        by (simp_all add: str_nat.simps [of m] str_nat.simps [of n])
      from "1.IH" [OF m a] have c: "m div 10 = n div 10" .
      have "m mod 10 < 10" "n mod 10 < 10" by simp_all
      from digit_inj [OF this b] have d: "m mod 10 = n mod 10" .
      from c d show ?thesis
        by (metis div_mult_mod_eq)
    qed
  qed
qed

lemma str_nat_no_space: "CHR '' '' \<notin> set (str_nat n)"
  using str_nat_digits [of n] by auto

lemma str_nat_no_gt: "CHR ''>'' \<notin> set (str_nat n)"
  using str_nat_digits [of n] by auto

lemma str_nat_space_False: "str_nat n = str_nat m @ CHR '' '' # r \<Longrightarrow> False"
proof -
  assume "str_nat n = str_nat m @ CHR '' '' # r"
  then have "CHR '' '' \<in> set (str_nat n)" by simp
  with str_nat_no_space show False by simp
qed

lemma str_nat_1: "str_nat (Suc 0) = ''1''"
  by code_simp

lemma str_nat_2: "str_nat (Suc (Suc 0)) = ''2''"
  by code_simp

lemma join_Cons: "zs \<noteq> [] \<Longrightarrow> join sep (x # zs) = x @ sep @ join sep zs"
  by (cases zs) simp_all

lemma join_append: "join sep (xs @ y # ys) = concat (map (\<lambda>x. x @ sep) xs) @ join sep (y # ys)"
  by (induction xs) (simp_all add: join_Cons)

lemma split_first:
  "c \<notin> set a \<Longrightarrow> c \<notin> set a' \<Longrightarrow> a @ c # r = a' @ c # r' \<Longrightarrow> a = a' \<and> r = r'"
proof (induction a arbitrary: a')
  case Nil
  then show ?case by (cases a') auto
next
  case (Cons x a)
  then show ?case by (cases a') auto
qed


lemma last_segment_sfs: "last_segment ''https://lagen.nu/sfs'' = ''sfs''"
  by (simp add: last_segment_def)

lemma last_segment_example: "last_segment ''https://lagen.nu/1998:204'' = ''1998:204''"
  by (simp add: last_segment_def)

section \<open>The flattener computes the document-order output\<close>

lemma process_comments_append:
  "process_comments info s sp cs chunks = chunks @ map (comment_chunk info s sp) cs"
  by (induction cs arbitrary: chunks) simp_all

lemma process_points_append:
  "process_points info s sp i j pts chunks =
     chunks @ map (\<lambda>jp. point_chunk info s sp i (fst jp) (snd jp)) (enumerate j pts)"
  by (induction pts arbitrary: chunks j) (simp_all add: enumerate_simps)

lemma iterate_listed: "f \<noteq> Null \<Longrightarrow> iterate (get_default f []) = Inr (listed f)"
  by (cases f) simp_all

lemma process_paragraphs_append:
  "list_all paragraph_ok ps \<Longrightarrow>
   process_paragraphs info s sp i ps chunks =
     Inr (chunks @ concat (map (paragraph_output info s sp) (enumerate i ps)))"
  by (induction ps arbitrary: chunks i)
     (simp_all add: paragraph_ok_def iterate_listed process_points_append paragraph_output_def)

lemma subscript_get: "f \<noteq> Missing \<Longrightarrow> subscript f = Inr (get f)"
  by (cases f) simp_all

lemma first_item_counted:
  "counted f \<Longrightarrow> \<exists>c. first_item (get_default f [empty_count]) = Inr c"
  by (cases f) (auto simp: counted_def neq_Nil_conv)

lemma section_chunk_ok:
  assumes "section_ok s"
  shows "\<exists>c. section_chunk info ch s sp = Inr c"
proof -
  from assms have a: "iterate (get_default (section_amendments s) []) = Inr (listed (section_amendments s))"
    by (simp add: section_ok_def iterate_listed)
  from assms obtain c1 where c1: "first_item (get_default (section_case_law s) [empty_count]) = Inr c1"
    using first_item_counted [of "section_case_law s"] by (auto simp: section_ok_def)
  from assms obtain c2 where c2: "first_item (get_default (section_citations s) [empty_count]) = Inr c2"
    using first_item_counted [of "section_citations s"] by (auto simp: section_ok_def)
  show ?thesis by (simp add: section_chunk_def a c1 c2)
qed

lemma process_section_append:
  assumes "section_ok s"
  shows "process_section info ch cp s chunks = Inr (chunks @ section_output info ch cp s)"
proof -
  let ?sp = "cp @ [''Section '' @ format (get (section_number s))]"
  from section_chunk_ok [OF assms] obtain c where c: "section_chunk info ch s ?sp = Inr c"
    by blast
  from assms have n: "subscript (section_number s) = Inr (get (section_number s))"
    by (simp add: section_ok_def subscript_get)
  from assms have cs: "iterate (get_default (section_comments s) []) = Inr (listed (section_comments s))"
    by (simp add: section_ok_def iterate_listed)
  from assms have ps: "iterate (get_default (section_paragraphs s) []) = Inr (listed (section_paragraphs s))"
    by (simp add: section_ok_def iterate_listed)
  from assms have ok: "list_all paragraph_ok (listed (section_paragraphs s))"
    by (simp add: section_ok_def)
  note c' = c [simplified]
  show ?thesis
    by (simp add: process_section_def section_output_def n c' cs ps
        process_paragraphs_append [OF ok] process_comments_append)
qed

lemma process_sections_append:
  "list_all section_ok ss \<Longrightarrow>
   process_sections info ch cp ss chunks =
     Inr (chunks @ concat (map (section_output info ch cp) ss))"
  by (induction ss arbitrary: chunks) (simp_all add: process_section_append)

lemma process_chapter_append:
  assumes "chapter_ok c"
  shows "process_chapter info path c chunks = Inr (chunks @ chapter_output info path c)"
  using assms
  by (simp add: process_chapter_def chapter_output_def chapter_ok_def subscript_get
      iterate_listed process_sections_append)

lemma process_chapters_append:
  "list_all chapter_ok cs \<Longrightarrow>
   process_chapters info path cs chunks =
     Inr (chunks @ concat (map (chapter_output info path) cs))"
  by (induction cs arbitrary: chunks) (simp_all add: process_chapter_append)

lemma attr_get_default_ok: "f \<noteq> Null \<Longrightarrow> \<exists>v. attr_get (get_default f d) k = Inr v"
  by (cases f) simp_all

lemma law_metadata_ok:
  assumes "metadata_ok law"
  shows "\<exists>info. law_metadata law = Inr info"
proof (cases "law_metadata_field law")
  case Missing
  then show ?thesis
    by (simp add: law_metadata_def empty_metadata_def empty_last_amended_def)
next
  case Null
  with assms show ?thesis by (simp add: metadata_ok_def)
next
  case (Val m)
  with assms have "last_amended m \<noteq> Null" by (simp add: metadata_ok_def)
  then have "\<exists>v. attr_get (get_default (last_amended m) empty_last_amended) sfs = Inr v"
    by (rule attr_get_default_ok)
  then obtain v where v: "attr_get (get_default (last_amended m) empty_last_amended) sfs = Inr v"
    by (rule exE)
  show ?thesis
    unfolding law_metadata_def by (simp add: Val v)
qed

lemma process_law_append:
  assumes "well_shaped law"
  shows "process_law law path chunks = Inr (chunks @ law_output law path)"
proof -
  from assms obtain info where i: "law_metadata law = Inr info"
    using law_metadata_ok [of law] by (auto simp: well_shaped_def)
  from assms show ?thesis
    by (simp add: process_law_def law_output_def i well_shaped_def iterate_listed
        process_chapters_append)
qed

subsection \<open>It returns on the well-shaped laws only\<close>

lemma iterate_Inr: "iterate (get_default f []) = Inr xs \<Longrightarrow> f \<noteq> Null \<and> xs = listed f"
  by (cases f) simp_all

lemma first_item_Inr: "first_item (get_default f [empty_count]) = Inr c \<Longrightarrow> counted f"
  by (cases f) (auto simp: counted_def)

lemma subscript_Inr: "subscript f = Inr v \<Longrightarrow> f \<noteq> Missing"
  by (cases f) simp_all

lemma process_paragraphs_Inr:
  "process_paragraphs info s sp i ps chunks = Inr out \<Longrightarrow> list_all paragraph_ok ps"
proof (induction ps arbitrary: chunks i)
  case Nil
  show ?case by simp
next
  case (Cons p ps)
  from Cons.prems obtain pts where
    pts: "iterate (get_default (paragraph_points p) []) = Inr pts" and
    rest: "process_paragraphs info s sp (Suc i) ps
             (process_points info s sp i 1 pts (chunks @ [para_chunk info s sp i p])) = Inr out"
    by (auto split: sum.splits)
  from iterate_Inr [OF pts] have "paragraph_ok p"
    by (simp add: paragraph_ok_def)
  with Cons.IH [OF rest] show ?case by simp
qed

lemma section_chunk_Inr:
  "section_chunk info ch s sp = Inr c \<Longrightarrow>
   section_amendments s \<noteq> Null \<and> counted (section_case_law s) \<and>
   counted (section_citations s)"
  by (auto simp: section_chunk_def split: sum.splits dest: iterate_Inr first_item_Inr)

lemma process_section_Inr:
  assumes "process_section info ch cp s chunks = Inr out"
  shows "section_ok s"
proof -
  from assms obtain number chunk comments paragraphs where
    n: "subscript (section_number s) = Inr number" and
    c: "section_chunk info ch s (cp @ [''Section '' @ format number]) = Inr chunk" and
    cs: "iterate (get_default (section_comments s) []) = Inr comments" and
    ps: "iterate (get_default (section_paragraphs s) []) = Inr paragraphs" and
    pp: "process_paragraphs info s (cp @ [''Section '' @ format number]) 1 paragraphs
           (process_comments info s (cp @ [''Section '' @ format number]) comments
              (chunks @ [chunk])) = Inr out"
    unfolding process_section_def by (auto split: sum.splits)
  from iterate_Inr [OF ps] process_paragraphs_Inr [OF pp]
  have "list_all paragraph_ok (listed (section_paragraphs s))"
    by simp
  with subscript_Inr [OF n] section_chunk_Inr [OF c] iterate_Inr [OF cs] iterate_Inr [OF ps]
  show ?thesis
    by (simp add: section_ok_def)
qed

lemma process_sections_Inr:
  "process_sections info ch cp ss chunks = Inr out \<Longrightarrow> list_all section_ok ss"
proof (induction ss arbitrary: chunks)
  case Nil
  show ?case by simp
next
  case (Cons s ss)
  from Cons.prems obtain chunks' where
    a: "process_section info ch cp s chunks = Inr chunks'" and
    b: "process_sections info ch cp ss chunks' = Inr out"
    by (auto split: sum.splits)
  from process_section_Inr [OF a] Cons.IH [OF b] show ?case by simp
qed

lemma process_chapter_Inr:
  assumes "process_chapter info path c chunks = Inr out"
  shows "chapter_ok c"
proof -
  from assms obtain number sections where
    n: "subscript (chapter_number c) = Inr number" and
    ss: "iterate (get_default (chapter_sections c) []) = Inr sections" and
    ps: "process_sections info c (path @ [''Chapter '' @ format number]) sections chunks =
           Inr out"
    unfolding process_chapter_def by (auto split: sum.splits)
  from iterate_Inr [OF ss] process_sections_Inr [OF ps]
  have "list_all section_ok (listed (chapter_sections c))"
    by simp
  with subscript_Inr [OF n] iterate_Inr [OF ss] show ?thesis
    by (simp add: chapter_ok_def)
qed

lemma process_chapters_Inr:
  "process_chapters info path cs chunks = Inr out \<Longrightarrow> list_all chapter_ok cs"
proof (induction cs arbitrary: chunks)
  case Nil
  show ?case by simp
next
  case (Cons c cs)
  from Cons.prems obtain chunks' where
    a: "process_chapter info path c chunks = Inr chunks'" and
    b: "process_chapters info path cs chunks' = Inr out"
    by (auto split: sum.splits)
  from process_chapter_Inr [OF a] Cons.IH [OF b] show ?case by simp
qed

lemma law_metadata_Inr:
  assumes "law_metadata law = Inr info"
  shows "metadata_ok law"
proof (cases "law_metadata_field law")
  case Missing
  then show ?thesis by (simp add: metadata_ok_def)
next
  case Null
  with assms show ?thesis by (simp add: law_metadata_def)
next
  case (Val m)
  with assms have "last_amended m \<noteq> Null"
    by (cases "last_amended m") (simp_all add: law_metadata_def)
  with Val show ?thesis by (simp add: metadata_ok_def)
qed

lemma process_law_Inr:
  assumes "process_law law path chunks = Inr out"
  shows "well_shaped law"
proof -
  from assms obtain info chapters where
    i: "law_metadata law = Inr info" and
    cs: "iterate (get_default (law_chapters law) []) = Inr chapters" and
    pc: "process_chapters info path chapters chunks = Inr out"
    unfolding process_law_def by (auto split: sum.splits)
  from iterate_Inr [OF cs] process_chapters_Inr [OF pc]
  have "list_all chapter_ok (listed (law_chapters law))"
    by simp
  with law_metadata_Inr [OF i] iterate_Inr [OF cs] show ?thesis
    by (simp add: well_shaped_def)
qed

text \<open>
  The flattener returns on exactly the well-shaped laws, and every law the builder writes
  is one.
\<close>

lemma process_law_returns_iff:
  "(\<exists>out. process_law law path chunks = Inr out) \<longleftrightarrow> well_shaped law"
proof
  assume "\<exists>out. process_law law path chunks = Inr out"
  then obtain out where "process_law law path chunks = Inr out"
    by (rule exE)
  then show "well_shaped law"
    by (rule process_law_Inr)
next
  assume "well_shaped law"
  then have "process_law law path chunks = Inr (chunks @ law_output law path)"
    by (rule process_law_append)
  then show "\<exists>out. process_law law path chunks = Inr out"
    by (rule exI)
qed

lemma stored_not_Missing: "stored v \<noteq> Missing"
  by (cases v) simp_all

lemma built_well_shaped: "well_shaped (build_law response)"
  by (simp add: stored_not_Missing well_shaped_def build_law_def metadata_ok_def list_all_iff chapter_ok_def
      build_chapter_def section_ok_def build_section_def counted_def paragraph_ok_def
      build_paragraph_def)

subsection \<open>The examples\<close>

lemmas build_defs = build_law_def build_chapter_def build_section_def build_paragraph_def

lemmas flatten_defs =
  process_law_def law_metadata_def process_chapter_def process_section_def
  section_chunk_def comment_chunk_def para_chunk_def point_chunk_def path_sep_def
  empty_metadata_def empty_last_amended_def empty_count_def

lemmas page_defs =
  simple_section_def simple_page_def two_comments_page_def shared_number_page_def
  separator_page_def

lemma example_well_shaped: "well_shaped example_law"
  by (simp add: example_law_def built_well_shaped)

lemma empty_well_shaped: "well_shaped empty_law"
  by (simp add: well_shaped_def empty_law_def metadata_ok_def)

lemma example_paths:
  "chunk_paths (law_output example_law [''sfs'', ''1998:204'']) =
     [''sfs > 1998:204 > Chapter 1 > Section 5'',
      ''sfs > 1998:204 > Chapter 1 > Section 5 > Comment'',
      ''sfs > 1998:204 > Chapter 1 > Section 5 > Paragraph 1'',
      ''sfs > 1998:204 > Chapter 1 > Section 5 > Paragraph 1 > Point 1'',
      ''sfs > 1998:204 > Chapter 1 > Section 5 > Paragraph 1 > Point 2'']"
  by (simp add: chunk_paths_def law_output_def chapter_output_def section_output_def
      paragraph_output_def example_law_def example_page_def build_defs flatten_defs
      str_nat_1 str_nat_2 enumerate_eq_zip)

lemma example_contents:
  "map content (law_output example_law [''sfs'', ''1998:204'']) =
     [Some ''No one shall...'', Some ''See prop. 1998 for context'',
      Some ''The following applies'', Some ''first'', Some ''second'']"
  by (simp add: law_output_def chapter_output_def section_output_def
      paragraph_output_def example_law_def example_page_def build_defs flatten_defs
      enumerate_eq_zip)

lemma empty_output: "law_output empty_law path = []"
  by (simp add: law_output_def empty_law_def split: sum.splits)

lemma example_metadata:
  "law_metadata example_law =
     Inr \<lparr>info_id = Some ''1998:204'', info_title = Some ''Personuppgiftslag'',
          info_short_title = None, info_department = Some ''Justitiedepartementet'',
          info_issued_date = None, info_last_amended = None\<rparr>"
  by (simp add: example_law_def example_page_def build_defs flatten_defs last_segment_def)

lemma example_unambiguous: "unambiguous example_law"
  by (simp add: unambiguous_def law_sections_def printed_numbers_def example_law_def
      example_page_def build_defs)

section \<open>Emission order\<close>

text \<open>
  Claim C8. For every law on which the flattener returns, the chunks it appends are, for
  the chapters in order and their sections in order: the section chunk, then one chunk
  per comment in order, then for each paragraph in order the paragraph chunk followed by
  one chunk per point in order; paragraphs and points are counted from 1 in the paths.
\<close>

theorem flatten_document_order:
  assumes "well_shaped law"
  shows "process_law law path chunks = Inr (chunks @ law_output law path)"
  using assms by (rule process_law_append)

theorem flatten_document_order_witness:
  "well_shaped example_law \<and>
   map_sum id chunk_paths (flatten ''sfs'' ''1998:204'' example_law) =
     Inr [''sfs > 1998:204 > Chapter 1 > Section 5'',
          ''sfs > 1998:204 > Chapter 1 > Section 5 > Comment'',
          ''sfs > 1998:204 > Chapter 1 > Section 5 > Paragraph 1'',
          ''sfs > 1998:204 > Chapter 1 > Section 5 > Paragraph 1 > Point 1'',
          ''sfs > 1998:204 > Chapter 1 > Section 5 > Paragraph 1 > Point 2''] \<and>
   map_sum id (map content) (flatten ''sfs'' ''1998:204'' example_law) =
     Inr [Some ''No one shall...'', Some ''See prop. 1998 for context'',
          Some ''The following applies'', Some ''first'', Some ''second'']"
  using flatten_document_order [OF example_well_shaped, of "[''sfs'', ''1998:204'']" "[]"]
  by (simp add: flatten_def example_well_shaped example_paths example_contents)

section \<open>Chunk count\<close>

lemma length_paragraph_output:
  "length (paragraph_output info s sp ip) = 1 + length (listed (paragraph_points (snd ip)))"
  by (simp add: paragraph_output_def)

lemma length_section_output:
  assumes "section_ok s"
  shows "length (section_output info ch cp s) =
     1 + length (listed (section_comments s)) + length (listed (section_paragraphs s)) +
     (\<Sum>p \<leftarrow> listed (section_paragraphs s). length (listed (paragraph_points p)))"
proof -
  from section_chunk_ok [OF assms] obtain c where
    "section_chunk info ch s (cp @ [''Section '' @ format (get (section_number s))]) = Inr c"
    by blast
  note c = this [simplified]
  have "(\<Sum>ip \<leftarrow> enumerate n ps. Suc (length (listed (paragraph_points (snd ip))))) =
        length ps + (\<Sum>p \<leftarrow> ps. length (listed (paragraph_points p)))" for n ps
    by (induction ps arbitrary: n) simp_all
  then show ?thesis
    by (simp add: section_output_def c length_concat comp_def length_paragraph_output)
qed

lemma length_chapter_output:
  assumes "chapter_ok ch"
  shows "length (chapter_output info path ch) =
     (\<Sum>s \<leftarrow> listed (chapter_sections ch).
        1 + length (listed (section_comments s)) + length (listed (section_paragraphs s)) +
        (\<Sum>p \<leftarrow> listed (section_paragraphs s). length (listed (paragraph_points p))))"
proof -
  from assms have ok: "list_all section_ok (listed (chapter_sections ch))"
    by (simp add: chapter_ok_def)
  have "\<And>cp. list_all section_ok ss \<Longrightarrow> length (concat (map (section_output info ch cp) ss)) =
     (\<Sum>s \<leftarrow> ss.
        1 + length (listed (section_comments s)) + length (listed (section_paragraphs s)) +
        (\<Sum>p \<leftarrow> listed (section_paragraphs s). length (listed (paragraph_points p))))" for ss
    by (induction ss) (simp_all add: length_section_output)
  from this [OF ok] show ?thesis by (simp add: chapter_output_def)
qed

lemma length_law_output:
  assumes "well_shaped law"
  shows "length (law_output law path) = chunk_count law"
proof -
  from assms obtain info where i: "law_metadata law = Inr info"
    using law_metadata_ok [of law] by (auto simp: well_shaped_def)
  from assms have ok: "list_all chapter_ok (listed (law_chapters law))"
    by (simp add: well_shaped_def)
  have "list_all chapter_ok cs \<Longrightarrow> length (concat (map (chapter_output info path) cs)) =
     (\<Sum>ch \<leftarrow> cs. \<Sum>s \<leftarrow> listed (chapter_sections ch).
        1 + length (listed (section_comments s)) + length (listed (section_paragraphs s)) +
        (\<Sum>p \<leftarrow> listed (section_paragraphs s). length (listed (paragraph_points p))))" for cs
    by (induction cs) (simp_all add: length_chapter_output)
  from this [OF ok] show ?thesis by (simp add: law_output_def i chunk_count_def)
qed

text \<open>
  Claim C2. For every law on which the flattener returns, it appends exactly one chunk
  per section, one per comment, one per paragraph and one per point, summed over all
  sections of all chapters; a law with no chapters appends no chunk at all.
\<close>

theorem flatten_chunk_count:
  assumes "well_shaped law"
  shows "\<exists>out. process_law law path chunks = Inr (chunks @ out) \<and>
           length out = chunk_count law \<and>
           (listed (law_chapters law) = [] \<longrightarrow> out = [])"
proof -
  have "listed (law_chapters law) = [] \<Longrightarrow> law_output law path = []"
    by (simp add: law_output_def split: sum.splits)
  with process_law_append [OF assms] length_law_output [OF assms] show ?thesis
    by blast
qed

theorem flatten_chunk_count_witness:
  "well_shaped example_law \<and>
   (\<exists>out. flatten ''sfs'' ''1998:204'' example_law = Inr out \<and> length out = 5) \<and>
   well_shaped empty_law \<and> flatten ''sfs'' ''empty'' empty_law = Inr []"
proof -
  have a: "well_shaped example_law"
    by (simp add: example_law_def built_well_shaped)
  have b: "well_shaped empty_law"
    by (simp add: well_shaped_def empty_law_def metadata_ok_def)
  have c: "chunk_count example_law = 5"
    by (simp add: chunk_count_def example_law_def example_page_def build_defs)
  have d: "listed (law_chapters empty_law) = []"
    by (simp add: empty_law_def)
  from flatten_chunk_count [OF a, of "[''sfs'', ''1998:204'']" "[]"] obtain out where
    "process_law example_law [''sfs'', ''1998:204''] [] = Inr ([] @ out)"
    "length out = chunk_count example_law"
    by (elim exE conjE)
  then have e: "\<exists>out. flatten ''sfs'' ''1998:204'' example_law = Inr out \<and> length out = 5"
    unfolding flatten_def c by simp
  from flatten_chunk_count [OF b, of "[''sfs'', ''empty'']" "[]"] obtain out' where
    "process_law empty_law [''sfs'', ''empty''] [] = Inr ([] @ out')"
    "listed (law_chapters empty_law) = [] \<longrightarrow> out' = []"
    by (elim exE conjE)
  with d have f: "flatten ''sfs'' ''empty'' empty_law = Inr []"
    unfolding flatten_def by simp
  from a e b f show ?thesis by (intro conjI)
qed

section \<open>The law information of the chunks\<close>

lemma section_chunk_info:
  "section_chunk info ch s sp = Inr c \<Longrightarrow> meta_law_info (metadata c) = info"
  by (auto simp: section_chunk_def split: sum.splits)

lemma section_output_info:
  "c \<in> set (section_output info ch cp s) \<Longrightarrow> meta_law_info (metadata c) = info"
  by (auto simp: section_output_def paragraph_output_def comment_chunk_def para_chunk_def
      point_chunk_def section_chunk_info split: sum.splits)

lemma law_output_info:
  "law_metadata law = Inr info \<Longrightarrow> c \<in> set (law_output law path) \<Longrightarrow>
   meta_law_info (metadata c) = info"
  by (auto simp: law_output_def chapter_output_def section_output_info)

text \<open>
  Claim C10. For every law on which the flattener returns, every chunk it appends
  (section, comment, paragraph and point chunks alike) carries the same \<^verbatim>\<open>law_info\<close>:
  the dictionary \<^verbatim>\<open>law_metadata\<close> computed from the law before the first chunk.
\<close>

theorem law_info_shared:
  assumes "well_shaped law"
  shows "\<exists>info. law_metadata law = Inr info \<and>
           process_law law path chunks = Inr (chunks @ law_output law path) \<and>
           (\<forall>c \<in> set (law_output law path). meta_law_info (metadata c) = info)"
proof -
  from assms have "metadata_ok law"
    by (simp add: well_shaped_def)
  then have "\<exists>info. law_metadata law = Inr info"
    by (rule law_metadata_ok)
  then obtain info where i: "law_metadata law = Inr info"
    by (rule exE)
  have "\<forall>c \<in> set (law_output law path). meta_law_info (metadata c) = info"
    using law_output_info [OF i] by simp
  with i process_law_append [OF assms] show ?thesis
    by simp
qed

theorem law_info_shared_witness:
  "well_shaped example_law \<and>
   map_sum id (map (\<lambda>c. info_id (meta_law_info (metadata c))))
     (flatten ''sfs'' ''1998:204'' example_law) =
     Inr (replicate 5 (Some ''1998:204''))"
proof -
  from law_info_shared [OF example_well_shaped, of "[''sfs'', ''1998:204'']" "[]"]
  obtain info where
    i: "law_metadata example_law = Inr info" and
    p: "process_law example_law [''sfs'', ''1998:204''] [] =
          Inr ([] @ law_output example_law [''sfs'', ''1998:204''])" and
    a: "\<forall>c \<in> set (law_output example_law [''sfs'', ''1998:204'']).
          meta_law_info (metadata c) = info"
    by (elim exE conjE)
  from i have info: "info_id info = Some ''1998:204''"
    by (auto simp: example_metadata)
  have l: "length (law_output example_law [''sfs'', ''1998:204'']) = 5"
    using arg_cong [OF example_contents, of length] by simp
  have "map (\<lambda>c. info_id (meta_law_info (metadata c)))
          (law_output example_law [''sfs'', ''1998:204'']) =
        replicate (length (law_output example_law [''sfs'', ''1998:204''])) (Some ''1998:204'')"
    using a info by (simp add: map_replicate_const [symmetric])
  with l p example_well_shaped show ?thesis
    by (simp add: flatten_def)
qed

section \<open>Paths\<close>

lemma paragraph_output_paths:
  "chunk_paths (paragraph_output info s (path @ [''Chapter '' @ cn, ''Section '' @ sn]) ip) =
     map (\<lambda>k. path_prefix path @ key_text cn sn k) (paragraph_crumbs ip)"
  by (simp add: chunk_paths_def paragraph_output_def paragraph_crumbs_def para_chunk_def
      point_chunk_def join_append path_prefix_def key_text_def path_sep_def comp_def)

lemma section_chunk_path:
  "section_chunk info ch s sp = Inr c \<Longrightarrow> meta_path (metadata c) = join path_sep sp"
  by (auto simp: section_chunk_def split: sum.splits)

lemma section_output_paths:
  assumes "section_ok s"
  shows "chunk_paths (section_output info ch (path @ [''Chapter '' @ cn]) s) =
     map (\<lambda>k. path_prefix path @ key_text cn (format (get (section_number s))) k)
       (section_crumbs s)"
proof -
  let ?sn = "format (get (section_number s))"
  let ?sp = "path @ [''Chapter '' @ cn, ''Section '' @ ?sn]"
  from section_chunk_ok [OF assms] obtain c where
    c: "section_chunk info ch s ?sp = Inr c"
    by (rule exE)
  have p: "meta_path (metadata c) = path_prefix path @ key_text cn ?sn SectionCrumb"
    by (simp add: section_chunk_path [OF c] join_append path_prefix_def key_text_def
        path_sep_def)
  have cs: "chunk_paths (map (comment_chunk info s ?sp) (listed (section_comments s))) =
      map (\<lambda>k. path_prefix path @ key_text cn ?sn k)
        (map (\<lambda>c. CommentCrumb) (listed (section_comments s)))"
    by (simp add: chunk_paths_def comment_chunk_def join_append path_prefix_def
        key_text_def path_sep_def comp_def)
  have ps: "chunk_paths (concat (map (paragraph_output info s ?sp) ips)) =
      map (\<lambda>k. path_prefix path @ key_text cn ?sn k) (concat (map paragraph_crumbs ips))"
    for ips
    using paragraph_output_paths [of info s path cn ?sn]
    by (induction ips) (simp_all add: chunk_paths_def)
  have "section_output info ch (path @ [''Chapter '' @ cn]) s =
      c # map (comment_chunk info s ?sp) (listed (section_comments s)) @
      concat (map (paragraph_output info s ?sp) (enumerate 1 (listed (section_paragraphs s))))"
    unfolding section_output_def using c by simp
  then have "chunk_paths (section_output info ch (path @ [''Chapter '' @ cn]) s) =
      meta_path (metadata c) #
      chunk_paths (map (comment_chunk info s ?sp) (listed (section_comments s))) @
      chunk_paths (concat (map (paragraph_output info s ?sp)
        (enumerate 1 (listed (section_paragraphs s)))))"
    by (simp add: chunk_paths_def)
  then show ?thesis
    unfolding p cs ps section_crumbs_def by simp
qed

lemma point_text_inj:
  assumes "str_nat i @ '' > Point '' @ str_nat j = str_nat i' @ '' > Point '' @ str_nat j'"
  shows "i = i' \<and> j = j'"
proof -
  from assms have "str_nat i @ CHR '' '' # (''> Point '' @ str_nat j) =
      str_nat i' @ CHR '' '' # (''> Point '' @ str_nat j')"
    by simp
  from split_first [OF str_nat_no_space str_nat_no_space this]
  have "str_nat i = str_nat i'" and "str_nat j = str_nat j'"
    by simp_all
  then show ?thesis
    by (simp add: str_nat_inj)
qed

lemma crumb_text_inj: "crumb_text k = crumb_text k' \<Longrightarrow> k = k'"
proof (cases k; cases k')
  fix i i' j'
  assume "k = ParagraphCrumb i" "k' = PointCrumb i' j'" "crumb_text k = crumb_text k'"
  then have "str_nat i = str_nat i' @ CHR '' '' # (''> Point '' @ str_nat j')"
    by simp
  then show "k = k'" by (rule str_nat_space_False [THEN FalseE])
next
  fix i i' j'
  assume "k' = ParagraphCrumb i" "k = PointCrumb i' j'" "crumb_text k = crumb_text k'"
  then have "str_nat i = str_nat i' @ CHR '' '' # (''> Point '' @ str_nat j')"
    by simp
  then show "k = k'" by (rule str_nat_space_False [THEN FalseE])
next
  fix i j i' j'
  assume k: "k = PointCrumb i j" "k' = PointCrumb i' j'" and "crumb_text k = crumb_text k'"
  then have "str_nat i @ '' > Point '' @ str_nat j = str_nat i' @ '' > Point '' @ str_nat j'"
    by simp
  from point_text_inj [OF this] k show "k = k'" by simp
qed (auto dest: str_nat_inj)

lemma crumb_text_shape:
  "crumb_text k = [] \<or> (\<exists>r. crumb_text k = CHR '' '' # CHR ''>'' # r)"
  by (cases k) simp_all

lemma key_text_inj:
  assumes gt: "CHR ''>'' \<notin> set cn" "CHR ''>'' \<notin> set sn"
    "CHR ''>'' \<notin> set cn'" "CHR ''>'' \<notin> set sn'"
    and eq: "key_text cn sn k = key_text cn' sn' k'"
  shows "cn = cn' \<and> sn = sn' \<and> k = k'"
proof -
  from eq have "(cn @ '' '') @ CHR ''>'' # ('' Section '' @ sn @ crumb_text k) =
      (cn' @ '' '') @ CHR ''>'' # ('' Section '' @ sn' @ crumb_text k')"
    by (simp add: key_text_def)
  from split_first [OF _ _ this] gt have cn: "cn = cn'"
    and rest: "sn @ crumb_text k = sn' @ crumb_text k'"
    by simp_all
  have "sn = sn' \<and> crumb_text k = crumb_text k'"
  proof -
    from crumb_text_shape [of k] crumb_text_shape [of k'] consider
      "crumb_text k = []" "crumb_text k' = []"
      | r where "crumb_text k = []" "crumb_text k' = CHR '' '' # CHR ''>'' # r"
      | r where "crumb_text k = CHR '' '' # CHR ''>'' # r" "crumb_text k' = []"
      | r r' where "crumb_text k = CHR '' '' # CHR ''>'' # r"
          "crumb_text k' = CHR '' '' # CHR ''>'' # r'"
      by auto
    then show ?thesis
    proof cases
      case 1
      with rest show ?thesis by simp
    next
      case 2
      with rest have "CHR ''>'' \<in> set sn" by simp
      with gt show ?thesis by simp
    next
      case 3
      with rest have "sn' = sn @ CHR '' '' # CHR ''>'' # r" by simp
      then have "CHR ''>'' \<in> set sn'" by simp
      with gt show ?thesis by simp
    next
      case 4
      with rest have "(sn @ '' '') @ CHR ''>'' # r = (sn' @ '' '') @ CHR ''>'' # r'"
        by simp
      from split_first [OF _ _ this] gt 4 show ?thesis by simp
    qed
  qed
  with cn show ?thesis
    by (simp add: crumb_text_inj)
qed

lemma distinct_concat_keyed:
  assumes "distinct (map g xs)"
    and "\<And>x. x \<in> set xs \<Longrightarrow> distinct (f x)"
    and "\<And>x y. x \<in> set xs \<Longrightarrow> y \<in> set (f x) \<Longrightarrow> h y = g x"
  shows "distinct (concat (map f xs))"
  using assms
proof (induction xs)
  case Nil
  show ?case by simp
next
  case (Cons x xs)
  have "set (f x) \<inter> set (concat (map f xs)) = {}"
  proof (rule ccontr)
    assume "set (f x) \<inter> set (concat (map f xs)) \<noteq> {}"
    then obtain y x' where y: "y \<in> set (f x)" and x': "x' \<in> set xs" and y': "y \<in> set (f x')"
      by auto
    from Cons.prems(3) [of x y] y have "h y = g x" by simp
    moreover from Cons.prems(3) [of x' y] x' y' have "h y = g x'" by simp
    ultimately have "g x = g x'" by simp
    then have "g x \<in> g ` set xs" using x' by (rule image_eqI)
    with Cons.prems(1) show False by simp
  qed
  moreover have "distinct (concat (map f xs))"
    using Cons.prems by (intro Cons.IH) simp_all
  moreover have "distinct (f x)"
    using Cons.prems(2) by simp
  ultimately show ?case by simp
qed

lemma distinct_paragraph_crumbs: "distinct (paragraph_crumbs ip)"
proof -
  have "distinct (map (PointCrumb i \<circ> fst) (enumerate n pts))"
    for i n and pts :: "string list"
    unfolding map_map [symmetric] by (simp add: distinct_map inj_on_def)
  then have "distinct (map (\<lambda>jp. PointCrumb i (fst jp)) (enumerate n pts))"
    for i n and pts :: "string list"
    by (simp add: comp_def)
  then show ?thesis
    by (auto simp: paragraph_crumbs_def)
qed

lemma paragraph_crumbs_index:
  "k \<in> set (paragraph_crumbs ip) \<Longrightarrow>
   (case k of ParagraphCrumb i \<Rightarrow> i | PointCrumb i j \<Rightarrow> i | _ \<Rightarrow> 0) = fst ip"
  by (auto simp: paragraph_crumbs_def)

lemma paragraph_crumbs_kind:
  "k \<in> set (paragraph_crumbs ip) \<Longrightarrow> k \<noteq> SectionCrumb \<and> k \<noteq> CommentCrumb"
  by (auto simp: paragraph_crumbs_def)

lemma distinct_section_crumbs:
  assumes "length (listed (section_comments s)) \<le> 1"
  shows "distinct (section_crumbs s)"
proof -
  have a: "distinct (concat (map paragraph_crumbs (enumerate 1 (listed (section_paragraphs s)))))"
    by (rule distinct_concat_keyed [where g = fst and
          h = "\<lambda>k. case k of ParagraphCrumb i \<Rightarrow> i | PointCrumb i j \<Rightarrow> i | _ \<Rightarrow> 0"])
       (simp_all add: distinct_paragraph_crumbs paragraph_crumbs_index)
  from assms have b: "distinct (map (\<lambda>c. CommentCrumb) (listed (section_comments s)))"
    by (cases "listed (section_comments s)") simp_all
  have c: "k \<in> set (concat (map paragraph_crumbs ips)) \<Longrightarrow>
      k \<noteq> SectionCrumb \<and> k \<noteq> CommentCrumb" for k ips
    using paragraph_crumbs_kind by auto
  from a b c show ?thesis
    by (auto simp: section_crumbs_def)
qed

lemma distinct_law_keys:
  assumes "unambiguous law"
  shows "distinct (concat (map section_keys (law_sections law)))"
proof (rule distinct_concat_keyed [where g = printed_numbers and h = fst])
  from assms show "distinct (map printed_numbers (law_sections law))"
    by (simp add: unambiguous_def)
next
  fix cs
  assume "cs \<in> set (law_sections law)"
  with assms have "length (listed (section_comments (snd cs))) \<le> 1"
    by (simp add: unambiguous_def list_all_iff)
  then show "distinct (section_keys cs)"
    by (simp add: section_keys_def distinct_map distinct_section_crumbs inj_on_def)
next
  fix cs nk
  assume "nk \<in> set (section_keys cs)"
  then show "fst nk = printed_numbers cs"
    by (auto simp: section_keys_def)
qed

lemma render_key_inj_on:
  assumes "unambiguous law"
  shows "inj_on (render_key path) (set (concat (map section_keys (law_sections law))))"
proof (rule inj_onI)
  fix nk nk'
  assume nk: "nk \<in> set (concat (map section_keys (law_sections law)))"
    and nk': "nk' \<in> set (concat (map section_keys (law_sections law)))"
    and eq: "render_key path nk = render_key path nk'"
  from nk obtain cs where "cs \<in> set (law_sections law)" "fst nk = printed_numbers cs"
    by (auto simp: section_keys_def)
  with assms have a: "CHR ''>'' \<notin> set (fst (fst nk))" "CHR ''>'' \<notin> set (snd (fst nk))"
    by (simp_all add: unambiguous_def list_all_iff)
  from nk' obtain cs' where "cs' \<in> set (law_sections law)" "fst nk' = printed_numbers cs'"
    by (auto simp: section_keys_def)
  with assms have b: "CHR ''>'' \<notin> set (fst (fst nk'))" "CHR ''>'' \<notin> set (snd (fst nk'))"
    by (simp_all add: unambiguous_def list_all_iff)
  from eq have "key_text (fst (fst nk)) (snd (fst nk)) (snd nk) =
      key_text (fst (fst nk')) (snd (fst nk')) (snd nk')"
    by (simp add: render_key_def)
  from key_text_inj [OF a b this] show "nk = nk'"
    by (simp add: prod_eq_iff)
qed

lemma chunk_paths_append: "chunk_paths (xs @ ys) = chunk_paths xs @ chunk_paths ys"
  by (simp add: chunk_paths_def)

lemma section_output_keys:
  assumes "section_ok s"
  shows "chunk_paths (section_output info ch
           (path @ [''Chapter '' @ format (get (chapter_number ch))]) s) =
         map (render_key path) (section_keys (ch, s))"
  unfolding section_output_paths [OF assms]
  by (simp add: section_keys_def render_key_def printed_numbers_def comp_def)

lemma chapter_output_keys:
  assumes "chapter_ok ch"
  shows "chunk_paths (chapter_output info path ch) =
         map (render_key path)
           (concat (map section_keys (map (\<lambda>s. (ch, s)) (listed (chapter_sections ch)))))"
proof -
  have "list_all section_ok ss \<Longrightarrow>
      chunk_paths (concat (map (section_output info ch
           (path @ [''Chapter '' @ format (get (chapter_number ch))])) ss)) =
      map (render_key path) (concat (map section_keys (map (\<lambda>s. (ch, s)) ss)))" for ss
    by (induction ss)
       (simp_all add: chunk_paths_append section_output_keys [simplified], simp add: chunk_paths_def)
  moreover from assms have "list_all section_ok (listed (chapter_sections ch))"
    by (simp add: chapter_ok_def)
  ultimately show ?thesis
    by (simp add: chapter_output_def)
qed

lemma law_output_keys:
  assumes "well_shaped law"
  shows "chunk_paths (law_output law path) =
         map (render_key path) (concat (map section_keys (law_sections law)))"
proof -
  from assms have "metadata_ok law"
    by (simp add: well_shaped_def)
  then have "\<exists>info. law_metadata law = Inr info"
    by (rule law_metadata_ok)
  then obtain info where i: "law_metadata law = Inr info"
    by (rule exE)
  have "list_all chapter_ok cs \<Longrightarrow>
      chunk_paths (concat (map (chapter_output info path) cs)) =
      map (render_key path)
        (concat (map section_keys
          (concat (map (\<lambda>ch. map (\<lambda>s. (ch, s)) (listed (chapter_sections ch))) cs))))" for cs
    by (induction cs) (simp_all add: chunk_paths_append chapter_output_keys, simp add: chunk_paths_def)
  moreover from assms have "list_all chapter_ok (listed (law_chapters law))"
    by (simp add: well_shaped_def)
  ultimately show ?thesis
    by (simp add: law_output_def i law_sections_def)
qed

text \<open>
  Claim C1 as stated fails: the two comment chunks of one section carry the same path,
  and so do the section chunks of two chapters that share a number when their sections
  share one. (Even with distinct numbers and single comments two paths can coincide,
  when a number contains the separator.)
\<close>

theorem paths_collide:
  "map_sum id chunk_paths (flatten ''sfs'' ''1998:204'' (build_law two_comments_page)) =
     Inr [''sfs > 1998:204 > Chapter 1 > Section 5'',
          ''sfs > 1998:204 > Chapter 1 > Section 5 > Comment'',
          ''sfs > 1998:204 > Chapter 1 > Section 5 > Comment''] \<and>
   map_sum id (\<lambda>out. distinct (chunk_paths out))
     (flatten ''sfs'' ''1998:204'' (build_law two_comments_page)) = Inr False \<and>
   map_sum id chunk_paths (flatten ''sfs'' ''1998:204'' (build_law shared_number_page)) =
     Inr [''sfs > 1998:204 > Chapter 1 > Section 1'',
          ''sfs > 1998:204 > Chapter 1 > Section 1''] \<and>
   map_sum id chunk_paths (flatten ''sfs'' ''1998:204'' (build_law separator_page)) =
     Inr [''sfs > 1998:204 > Chapter 1 > Section 2'',
          ''sfs > 1998:204 > Chapter 1 > Section 2 > Comment'',
          ''sfs > 1998:204 > Chapter 1 > Section 2 > Comment'']"
  by (simp add: flatten_def flatten_defs build_defs page_defs chunk_paths_def)

text \<open>
  Claim C1, amended. For every law on which the flattener returns, whose sections have at
  most one comment each and whose pairs of chapter number and section number, as the
  paths print them, are pairwise distinct and free of the character \<^verbatim>\<open>>\<close>, the paths of the
  chunks it appends are pairwise distinct.
\<close>

theorem paths_distinct:
  assumes "well_shaped law" and "unambiguous law"
  shows "process_law law path chunks = Inr (chunks @ law_output law path) \<and>
         distinct (chunk_paths (law_output law path))"
proof -
  have "distinct (map (render_key path) (concat (map section_keys (law_sections law))))"
    using distinct_law_keys [OF assms(2)] render_key_inj_on [OF assms(2)]
    by (simp add: distinct_map)
  then have "distinct (chunk_paths (law_output law path))"
    by (simp add: law_output_keys [OF assms(1)])
  with process_law_append [OF assms(1)] show ?thesis
    by simp
qed

theorem paths_distinct_witness:
  "well_shaped example_law \<and> unambiguous example_law \<and>
   map_sum id (\<lambda>out. distinct (chunk_paths out))
     (flatten ''sfs'' ''1998:204'' example_law) = Inr True"
  using paths_distinct [OF example_well_shaped example_unambiguous,
      of "[''sfs'', ''1998:204'']" "[]"]
  by (simp add: flatten_def example_well_shaped example_unambiguous)

section \<open>Content and exceptions\<close>

text \<open>
  Claim C7. The content of a chunk is not always a string: for a page whose section and
  paragraph have no text node the builder stores \<^verbatim>\<open>"text": None\<close>, the default of
  \<^verbatim>\<open>.get("text", "")\<close> does not apply to a key that is present, and both chunks carry the
  content \<open>None\<close>.
\<close>

theorem content_none:
  "map_sum id (map content) (flatten ''sfs'' ''1998:204'' (build_law page_without_text)) =
     Inr [None, None]"
  by (simp add: flatten_def flatten_defs build_defs page_without_text_def)

text \<open>
  Claim C4. The flattener does raise on law dictionaries with absent or null fields:
  \<^verbatim>\<open>chapter['number']\<close> and \<^verbatim>\<open>section['number']\<close> raise \<open>KeyError\<close> on a chapter or section
  without the key \<^verbatim>\<open>number\<close> (the same key is read with \<^verbatim>\<open>.get("number")\<close> a few lines
  below), and a null \<^verbatim>\<open>metadata\<close> raises \<open>AttributeError\<close>.
\<close>

theorem flatten_raises:
  "flatten ''sfs'' ''1998:204'' law_without_chapter_number = Inl KeyError \<and>
   flatten ''sfs'' ''1998:204'' law_without_section_number = Inl KeyError \<and>
   flatten ''sfs'' ''1998:204'' law_with_null_metadata = Inl AttributeError"
  by (simp add: flatten_def flatten_defs law_without_chapter_number_def
      law_without_section_number_def law_with_null_metadata_def)

section \<open>Flattening a corpus\<close>

lemma prepend_Nil [simp]: "prepend [] r = r"
  by (cases r) simp_all

lemma prepend_prepend [simp]: "prepend xs (prepend ys r) = prepend (xs @ ys) r"
  by (cases r) simp_all

lemma process_paragraphs_prepend:
  "process_paragraphs info s sp i ps chunks =
     prepend chunks (process_paragraphs info s sp i ps [])"
proof (induction ps arbitrary: chunks i)
  case Nil
  show ?case by simp
next
  case (Cons p ps)
  show ?case
  proof (cases "iterate (get_default (paragraph_points p) [])")
    case (Inl e)
    then show ?thesis by simp
  next
    case (Inr pts)
    let ?new = "para_chunk info s sp i p #
      map (\<lambda>jp. point_chunk info s sp i (fst jp) (snd jp)) (enumerate 1 pts)"
    have "process_paragraphs info s sp i (p # ps) chunks =
        process_paragraphs info s sp (Suc i) ps (chunks @ ?new)"
      by (simp add: Inr process_points_append)
    also have "\<dots> = prepend (chunks @ ?new) (process_paragraphs info s sp (Suc i) ps [])"
      by (rule Cons.IH)
    also have "\<dots> = prepend chunks (prepend ?new (process_paragraphs info s sp (Suc i) ps []))"
      by simp
    also have "prepend ?new (process_paragraphs info s sp (Suc i) ps []) =
        process_paragraphs info s sp (Suc i) ps ?new"
      by (rule Cons.IH [symmetric])
    also have "\<dots> = process_paragraphs info s sp i (p # ps) []"
      by (simp add: Inr process_points_append)
    finally show ?thesis .
  qed
qed

lemma process_section_prepend:
  "process_section info ch cp s chunks = prepend chunks (process_section info ch cp s [])"
proof -
  have *: "process_paragraphs info s sp i ps (chunks @ xs) =
      prepend chunks (process_paragraphs info s sp i ps xs)" for sp i ps xs
    using process_paragraphs_prepend [of info s sp i ps "chunks @ xs"]
      process_paragraphs_prepend [of info s sp i ps xs]
    by simp
  show ?thesis
    unfolding process_section_def
    by (simp add: process_comments_append * split: sum.splits)
qed

lemma process_sections_prepend:
  "process_sections info ch cp ss chunks = prepend chunks (process_sections info ch cp ss [])"
proof (induction ss arbitrary: chunks)
  case Nil
  show ?case by simp
next
  case (Cons s ss)
  show ?case
  proof (cases "process_section info ch cp s []")
    case (Inl e)
    then show ?thesis
      using process_section_prepend [of info ch cp s chunks] by simp
  next
    case (Inr out)
    have "process_sections info ch cp (s # ss) chunks =
        process_sections info ch cp ss (chunks @ out)"
      using process_section_prepend [of info ch cp s chunks] by (simp add: Inr)
    also have "\<dots> = prepend (chunks @ out) (process_sections info ch cp ss [])"
      by (rule Cons.IH)
    also have "\<dots> = prepend chunks (prepend out (process_sections info ch cp ss []))"
      by simp
    also have "prepend out (process_sections info ch cp ss []) =
        process_sections info ch cp ss out"
      by (rule Cons.IH [symmetric])
    also have "\<dots> = process_sections info ch cp (s # ss) []"
      by (simp add: Inr)
    finally show ?thesis .
  qed
qed

lemma process_chapter_prepend:
  "process_chapter info path ch chunks = prepend chunks (process_chapter info path ch [])"
  unfolding process_chapter_def
  using process_sections_prepend [of info ch _ _ chunks]
  by (simp split: sum.splits)

lemma process_chapters_prepend:
  "process_chapters info path cs chunks = prepend chunks (process_chapters info path cs [])"
proof (induction cs arbitrary: chunks)
  case Nil
  show ?case by simp
next
  case (Cons c cs)
  show ?case
  proof (cases "process_chapter info path c []")
    case (Inl e)
    then show ?thesis
      using process_chapter_prepend [of info path c chunks] by simp
  next
    case (Inr out)
    have "process_chapters info path (c # cs) chunks =
        process_chapters info path cs (chunks @ out)"
      using process_chapter_prepend [of info path c chunks] by (simp add: Inr)
    also have "\<dots> = prepend (chunks @ out) (process_chapters info path cs [])"
      by (rule Cons.IH)
    also have "\<dots> = prepend chunks (prepend out (process_chapters info path cs []))"
      by simp
    also have "prepend out (process_chapters info path cs []) =
        process_chapters info path cs out"
      by (rule Cons.IH [symmetric])
    also have "\<dots> = process_chapters info path (c # cs) []"
      by (simp add: Inr)
    finally show ?thesis .
  qed
qed

lemma process_law_prepend:
  "process_law law path chunks = prepend chunks (process_law law path [])"
  unfolding process_law_def
  using process_chapters_prepend [of _ path _ chunks]
  by (simp split: sum.splits)

lemma process_laws_concat:
  "process_laws category laws chunks =
     prepend chunks
       (concat_results (map (\<lambda>nl. flatten category (fst nl) (snd nl)) laws))"
proof (induction laws arbitrary: chunks)
  case Nil
  show ?case by simp
next
  case (Cons nl laws)
  obtain law_name law where nl: "nl = (law_name, law)"
    by (cases nl)
  show ?case
  proof (cases "process_law law [category, law_name] []")
    case (Inl e)
    then show ?thesis
      using process_law_prepend [of law "[category, law_name]" chunks]
      by (simp add: nl flatten_def)
  next
    case (Inr out)
    then have "process_law law [category, law_name] chunks = Inr (chunks @ out)"
      using process_law_prepend [of law "[category, law_name]" chunks] by simp
    then show ?thesis
      by (simp add: nl flatten_def Inr Cons.IH)
  qed
qed

lemma concat_results_append:
  "concat_results (rs @ rs') =
     (case concat_results rs of Inl e \<Rightarrow> Inl e | Inr xs \<Rightarrow> prepend xs (concat_results rs'))"
proof (induction rs rule: concat_results.induct)
  case 1
  show ?case by simp
next
  case (2 e rest)
  show ?case by simp
next
  case (3 xs rest)
  then show ?case
    by (cases "concat_results rest") simp_all
qed

lemma process_categories_concat:
  "process_categories data chunks =
     prepend chunks
       (concat_results (map (\<lambda>t. flatten (fst t) (fst (snd t)) (snd (snd t))) (triples data)))"
proof (induction data arbitrary: chunks)
  case Nil
  show ?case by (simp add: triples_def)
next
  case (Cons cl data)
  obtain category laws where cl: "cl = (category, laws)"
    by (cases cl)
  have t: "triples ((category, laws) # data) =
      map (\<lambda>nl. (category, fst nl, snd nl)) laws @ triples data"
    by (simp add: triples_def)
  show ?case
  proof (cases "concat_results (map (\<lambda>nl. flatten category (fst nl) (snd nl)) laws)")
    case (Inl e)
    then show ?thesis
      by (simp add: cl t process_laws_concat concat_results_append comp_def)
  next
    case (Inr out)
    then show ?thesis
      by (simp add: cl t process_laws_concat concat_results_append comp_def Cons.IH)
  qed
qed

text \<open>
  Claim C9. Flattening a whole corpus is the concatenation, in the order of the corpus,
  of the flattening of each of its (category, law name, law) triples: the chunks of the
  result are those of the first law, then those of the second, and so on, each law's
  chunks in that law's own order. An exception raised for a law is the result for the
  corpus.
\<close>

theorem split_documents_concat:
  "split_documents (saved_data data) =
     concat_results (map (\<lambda>t. flatten (fst t) (fst (snd t)) (snd (snd t))) (triples data))"
  by (simp add: split_documents_def saved_data_def process_categories_concat)

theorem split_documents_concat_witness:
  "map_sum id chunk_paths (split_documents (saved_data example_corpus)) =
     Inr [''sfs > 1998:204 > Chapter 1 > Section 5'',
          ''sfs > 1998:204 > Chapter 1 > Section 5 > Comment'',
          ''sfs > 1998:204 > Chapter 1 > Section 5 > Paragraph 1'',
          ''sfs > 1998:204 > Chapter 1 > Section 5 > Paragraph 1 > Point 1'',
          ''sfs > 1998:204 > Chapter 1 > Section 5 > Paragraph 1 > Point 2'']"
proof -
  have a: "flatten ''sfs'' ''1998:204'' example_law =
      Inr (law_output example_law [''sfs'', ''1998:204''])"
    using process_law_append [OF example_well_shaped, of "[''sfs'', ''1998:204'']" "[]"]
    by (simp add: flatten_def)
  have b: "flatten ''sfs'' ''empty'' empty_law = Inr []"
    using process_law_append [OF empty_well_shaped, of "[''sfs'', ''empty'']" "[]"]
    by (simp add: flatten_def empty_output)
  show ?thesis
    using split_documents_concat [of example_corpus]
    by (simp add: example_corpus_def triples_def a b example_paths)
qed

section \<open>The link classifier\<close>















section \<open>The corpus\<close>

lemma map_of_parse_category:
  "map_of (fst (parse_category data url hrefs)) (last_segment url) = Some []"
  by (simp add: parse_category_def update_conv')

lemma lookup_law_insert:
  assumes "insert_law data category law_name law = Inr data'"
  shows "lookup_law data' c n =
     (if c = category \<and> n = law_name then Some law else lookup_law data c n)"
proof (cases "map_of data category")
  case None
  with assms show ?thesis by (simp add: insert_law_def)
next
  case (Some laws)
  with assms have "data' = AList.update category (AList.update law_name law laws) data"
    by (simp add: insert_law_def)
  with Some show ?thesis
    by (simp add: lookup_law_def update_conv')
qed

lemma insert_law_returns:
  assumes "map_of data category \<noteq> None"
  shows "\<exists>data'. insert_law data category law_name law = Inr data'"
  using assms by (cases "map_of data category") (simp_all add: insert_law_def)

lemma insert_law_keeps_category:
  assumes "insert_law data category law_name law = Inr data'"
  shows "map_of data' c \<noteq> None \<longleftrightarrow> map_of data c \<noteq> None"
proof (cases "map_of data category")
  case None
  with assms show ?thesis by (simp add: insert_law_def)
next
  case (Some laws)
  with assms have "data' = AList.update category (AList.update law_name law laws) data"
    by (simp add: insert_law_def)
  with Some show ?thesis
    by (auto simp: update_conv')
qed

lemma lookup_law_parse_category:
  "c \<noteq> last_segment url \<Longrightarrow>
   lookup_law (fst (parse_category data url hrefs)) c n = lookup_law data c n"
  by (simp add: lookup_law_def parse_category_def update_conv')

lemma insert_twice:
  assumes c: "map_of data c \<noteq> None"
  shows "\<exists>d1 d2. insert_law data c n A = Inr d1 \<and> insert_law d1 c n B = Inr d2 \<and>
         lookup_law d2 c n = Some B \<and>
         (\<forall>c' n'. (c', n') \<noteq> (c, n) \<longrightarrow> lookup_law d2 c' n' = lookup_law data c' n')"
proof -
  from insert_law_returns [OF c] obtain d1 where d1: "insert_law data c n A = Inr d1"
    by (rule exE)
  have "map_of d1 c \<noteq> None"
    using insert_law_keeps_category [OF d1, of c] c by (rule iffD2)
  from insert_law_returns [OF this] obtain d2 where d2: "insert_law d1 c n B = Inr d2"
    by (rule exE)
  have "lookup_law d2 c n = Some B"
    by (simp add: lookup_law_insert [OF d2])
  moreover have "\<forall>c' n'. (c', n') \<noteq> (c, n) \<longrightarrow> lookup_law d2 c' n' = lookup_law data c' n'"
    by (simp add: lookup_law_insert [OF d2] lookup_law_insert [OF d1])
  ultimately show ?thesis
    using d1 d2 by (intro exI conjI)
qed

lemma insert_two_keys:
  assumes c: "map_of data c \<noteq> None" and c': "map_of data c' \<noteq> None"
    and ne: "(c, n) \<noteq> (c', n')"
  shows "\<exists>d1 d2. insert_law data c n A = Inr d1 \<and> insert_law d1 c' n' B = Inr d2 \<and>
         lookup_law d2 c n = Some A \<and> lookup_law d2 c' n' = Some B"
proof -
  from insert_law_returns [OF c] obtain d1 where d1: "insert_law data c n A = Inr d1"
    by (rule exE)
  have "map_of d1 c' \<noteq> None"
    using insert_law_keeps_category [OF d1, of c'] c' by (rule iffD2)
  from insert_law_returns [OF this] obtain d2 where d2: "insert_law d1 c' n' B = Inr d2"
    by (rule exE)
  from ne have "lookup_law d2 c n = Some A"
    by (auto simp: lookup_law_insert [OF d2] lookup_law_insert [OF d1])
  moreover have "lookup_law d2 c' n' = Some B"
    by (simp add: lookup_law_insert [OF d2])
  ultimately show ?thesis
    using d1 d2 by (intro exI conjI)
qed


lemma lookup_law_after_first_page:
  "lookup_law (fst (parse_category init_data url hrefs)) c n = None"
  by (simp add: lookup_law_def parse_category_def init_data_def)

lemma categories_after_two_pages:
  "map_of (fst (parse_category (fst (parse_category data url hrefs)) url' hrefs'))
     (last_segment url) \<noteq> None \<and>
   map_of (fst (parse_category (fst (parse_category data url hrefs)) url' hrefs'))
     (last_segment url') \<noteq> None"
  by (simp add: parse_category_def update_conv')

text \<open>
  Claim C6 as stated fails: on the empty corpus the insertion itself, and
  \<^verbatim>\<open>parse_law\<close> with it, raises \<open>KeyError\<close>, because the dictionary of the category is not
  there before a category page has been parsed.
\<close>

theorem insert_into_empty_corpus_raises:
  "insert_law init_data ''sfs'' ''1998:204'' empty_law = Inl KeyError \<and>
   callback init_data (LawPage example_page) = Inl KeyError"
  by (simp add: insert_law_def init_data_def parse_law_def)

text \<open>
  Claim C6, amended. Insertion is last-write-wins and keys are independent once the
  dictionary of the category exists, which parsing the category page establishes.
  Starting from the empty corpus, after the category page has been parsed, inserting law
  A and then law B under the same (category, law name) key gives a corpus whose lookup of
  that key is B alone, and no other key holds a law; after the category pages of two
  distinct keys have been parsed, inserting A and B under the two keys gives a corpus
  whose lookup of each key is its own law. The same holds in every corpus in which the
  categories exist: A then B under one key leaves B there and every other key as before,
  and two distinct keys each return their own law.
\<close>

theorem insert_last_write_wins:
  "(\<exists>d0 d1 d2. callback init_data (CategoryPage url hrefs) = Inr d0 \<and>
      insert_law d0 (last_segment url) n A = Inr d1 \<and>
      insert_law d1 (last_segment url) n B = Inr d2 \<and>
      lookup_law d2 (last_segment url) n = Some B \<and>
      (\<forall>c' n'. (c', n') \<noteq> (last_segment url, n) \<longrightarrow> lookup_law d2 c' n' = None)) \<and>
   ((last_segment url, n) \<noteq> (last_segment url', n') \<longrightarrow>
      (\<exists>d0 d0' d1 d2. callback init_data (CategoryPage url hrefs) = Inr d0 \<and>
         callback d0 (CategoryPage url' hrefs') = Inr d0' \<and>
         insert_law d0' (last_segment url) n A = Inr d1 \<and>
         insert_law d1 (last_segment url') n' B = Inr d2 \<and>
         lookup_law d2 (last_segment url) n = Some A \<and>
         lookup_law d2 (last_segment url') n' = Some B)) \<and>
   (map_of data c \<noteq> None \<longrightarrow>
      (\<exists>d1 d2. insert_law data c n A = Inr d1 \<and> insert_law d1 c n B = Inr d2 \<and>
         lookup_law d2 c n = Some B \<and>
         (\<forall>c' n'. (c', n') \<noteq> (c, n) \<longrightarrow> lookup_law d2 c' n' = lookup_law data c' n'))) \<and>
   (map_of data c \<noteq> None \<and> map_of data c' \<noteq> None \<and> (c, n) \<noteq> (c', n') \<longrightarrow>
      (\<exists>d1 d2. insert_law data c n A = Inr d1 \<and> insert_law d1 c' n' B = Inr d2 \<and>
         lookup_law d2 c n = Some A \<and> lookup_law d2 c' n' = Some B))"
proof (intro conjI impI)
  let ?d0 = "fst (parse_category init_data url hrefs)"
  have "map_of ?d0 (last_segment url) \<noteq> None"
    by (simp add: map_of_parse_category)
  from insert_twice [OF this, of n A B] obtain d1 d2 where
    "insert_law ?d0 (last_segment url) n A = Inr d1"
    "insert_law d1 (last_segment url) n B = Inr d2"
    "lookup_law d2 (last_segment url) n = Some B"
    "\<forall>c' n'. (c', n') \<noteq> (last_segment url, n) \<longrightarrow> lookup_law d2 c' n' = lookup_law ?d0 c' n'"
    by (elim exE conjE)
  then show "\<exists>d0 d1 d2. callback init_data (CategoryPage url hrefs) = Inr d0 \<and>
      insert_law d0 (last_segment url) n A = Inr d1 \<and>
      insert_law d1 (last_segment url) n B = Inr d2 \<and>
      lookup_law d2 (last_segment url) n = Some B \<and>
      (\<forall>c' n'. (c', n') \<noteq> (last_segment url, n) \<longrightarrow> lookup_law d2 c' n' = None)"
    by (intro exI [of _ ?d0] exI [of _ d1] exI [of _ d2])
       (simp add: lookup_law_after_first_page)
next
  assume ne: "(last_segment url, n) \<noteq> (last_segment url', n')"
  let ?d0 = "fst (parse_category init_data url hrefs)"
  let ?d0' = "fst (parse_category ?d0 url' hrefs')"
  from categories_after_two_pages [of init_data url hrefs url' hrefs']
  have a: "map_of ?d0' (last_segment url) \<noteq> None" and b: "map_of ?d0' (last_segment url') \<noteq> None"
    by simp_all
  from insert_two_keys [OF a b ne, of A B] obtain d1 d2 where
    "insert_law ?d0' (last_segment url) n A = Inr d1"
    "insert_law d1 (last_segment url') n' B = Inr d2"
    "lookup_law d2 (last_segment url) n = Some A"
    "lookup_law d2 (last_segment url') n' = Some B"
    by (elim exE conjE)
  then show "\<exists>d0 d0' d1 d2. callback init_data (CategoryPage url hrefs) = Inr d0 \<and>
         callback d0 (CategoryPage url' hrefs') = Inr d0' \<and>
         insert_law d0' (last_segment url) n A = Inr d1 \<and>
         insert_law d1 (last_segment url') n' B = Inr d2 \<and>
         lookup_law d2 (last_segment url) n = Some A \<and>
         lookup_law d2 (last_segment url') n' = Some B"
    by (intro exI [of _ ?d0] exI [of _ ?d0'] exI [of _ d1] exI [of _ d2]) simp
next
  assume "map_of data c \<noteq> None"
  then show "\<exists>d1 d2. insert_law data c n A = Inr d1 \<and> insert_law d1 c n B = Inr d2 \<and>
         lookup_law d2 c n = Some B \<and>
         (\<forall>c' n'. (c', n') \<noteq> (c, n) \<longrightarrow> lookup_law d2 c' n' = lookup_law data c' n')"
    by (rule insert_twice)
next
  assume "map_of data c \<noteq> None \<and> map_of data c' \<noteq> None \<and> (c, n) \<noteq> (c', n')"
  then have "map_of data c \<noteq> None" "map_of data c' \<noteq> None" "(c, n) \<noteq> (c', n')"
    by simp_all
  then show "\<exists>d1 d2. insert_law data c n A = Inr d1 \<and> insert_law d1 c' n' B = Inr d2 \<and>
         lookup_law d2 c n = Some A \<and> lookup_law d2 c' n' = Some B"
    by (rule insert_two_keys)
qed


lemma last_segment_dv: "last_segment ''https://lagen.nu/dv'' = ''dv''"
  by (simp add: last_segment_def)

theorem insert_last_write_wins_witness:
  "(\<exists>d0 d1 d2. callback init_data (CategoryPage ''https://lagen.nu/sfs'' []) = Inr d0 \<and>
      insert_law d0 ''sfs'' ''1998:204'' empty_law = Inr d1 \<and>
      insert_law d1 ''sfs'' ''1998:204'' example_law = Inr d2 \<and>
      lookup_law d2 ''sfs'' ''1998:204'' = Some example_law \<and>
      lookup_law d2 ''sfs'' ''1999:1'' = None) \<and>
   (''sfs'', ''1998:204'') \<noteq> (''dv'', ''2010:1'') \<and>
   (\<exists>d0 d0' d1 d2. callback init_data (CategoryPage ''https://lagen.nu/sfs'' []) = Inr d0 \<and>
      callback d0 (CategoryPage ''https://lagen.nu/dv'' []) = Inr d0' \<and>
      insert_law d0' ''sfs'' ''1998:204'' empty_law = Inr d1 \<and>
      insert_law d1 ''dv'' ''2010:1'' example_law = Inr d2 \<and>
      lookup_law d2 ''sfs'' ''1998:204'' = Some empty_law \<and>
      lookup_law d2 ''dv'' ''2010:1'' = Some example_law) \<and>
   map_of example_law_page_data ''sfs'' \<noteq> None \<and>
   (\<exists>d1 d2. insert_law example_law_page_data ''sfs'' ''1998:204'' empty_law = Inr d1 \<and>
      insert_law d1 ''sfs'' ''1998:204'' example_law = Inr d2 \<and>
      lookup_law d2 ''sfs'' ''1998:204'' = Some example_law) \<and>
   (''sfs'', ''1998:204'') \<noteq> (''sfs'', ''2010:1'') \<and>
   (\<exists>d1 d2. insert_law example_law_page_data ''sfs'' ''1998:204'' empty_law = Inr d1 \<and>
      insert_law d1 ''sfs'' ''2010:1'' example_law = Inr d2 \<and>
      lookup_law d2 ''sfs'' ''1998:204'' = Some empty_law \<and>
      lookup_law d2 ''sfs'' ''2010:1'' = Some example_law)"
proof -
  note t = insert_last_write_wins [of "''https://lagen.nu/sfs''" "[]" "''1998:204''" empty_law
      example_law "''https://lagen.nu/dv''" "''2010:1''" "[]" example_law_page_data "''sfs''"
      "''sfs''"]
  from t [THEN conjunct1] obtain d0 d1 d2 where
    "callback init_data (CategoryPage ''https://lagen.nu/sfs'' []) = Inr d0"
    "insert_law d0 (last_segment ''https://lagen.nu/sfs'') ''1998:204'' empty_law = Inr d1"
    "insert_law d1 (last_segment ''https://lagen.nu/sfs'') ''1998:204'' example_law = Inr d2"
    "lookup_law d2 (last_segment ''https://lagen.nu/sfs'') ''1998:204'' = Some example_law"
    "\<forall>c' n'. (c', n') \<noteq> (last_segment ''https://lagen.nu/sfs'', ''1998:204'') \<longrightarrow>
       lookup_law d2 c' n' = None"
    by (elim exE conjE)
  then have first:
    "\<exists>d0 d1 d2. callback init_data (CategoryPage ''https://lagen.nu/sfs'' []) = Inr d0 \<and>
      insert_law d0 ''sfs'' ''1998:204'' empty_law = Inr d1 \<and>
      insert_law d1 ''sfs'' ''1998:204'' example_law = Inr d2 \<and>
      lookup_law d2 ''sfs'' ''1998:204'' = Some example_law \<and>
      lookup_law d2 ''sfs'' ''1999:1'' = None"
    by (intro exI [of _ d0] exI [of _ d1] exI [of _ d2]) (simp add: last_segment_sfs)
  have ne: "(''sfs'', ''1998:204'') \<noteq> (''dv'', ''2010:1'')"
    by simp
  then have "(last_segment ''https://lagen.nu/sfs'', ''1998:204'') \<noteq>
      (last_segment ''https://lagen.nu/dv'', ''2010:1'')"
    by (simp add: last_segment_sfs last_segment_dv)
  with t [THEN conjunct2, THEN conjunct1] obtain e0 e0' e1 e2 where
    "callback init_data (CategoryPage ''https://lagen.nu/sfs'' []) = Inr e0"
    "callback e0 (CategoryPage ''https://lagen.nu/dv'' []) = Inr e0'"
    "insert_law e0' (last_segment ''https://lagen.nu/sfs'') ''1998:204'' empty_law = Inr e1"
    "insert_law e1 (last_segment ''https://lagen.nu/dv'') ''2010:1'' example_law = Inr e2"
    "lookup_law e2 (last_segment ''https://lagen.nu/sfs'') ''1998:204'' = Some empty_law"
    "lookup_law e2 (last_segment ''https://lagen.nu/dv'') ''2010:1'' = Some example_law"
    by (elim impE exE conjE) assumption+
  then have second:
    "\<exists>d0 d0' d1 d2. callback init_data (CategoryPage ''https://lagen.nu/sfs'' []) = Inr d0 \<and>
      callback d0 (CategoryPage ''https://lagen.nu/dv'' []) = Inr d0' \<and>
      insert_law d0' ''sfs'' ''1998:204'' empty_law = Inr d1 \<and>
      insert_law d1 ''dv'' ''2010:1'' example_law = Inr d2 \<and>
      lookup_law d2 ''sfs'' ''1998:204'' = Some empty_law \<and>
      lookup_law d2 ''dv'' ''2010:1'' = Some example_law"
    by (intro exI [of _ e0] exI [of _ e0'] exI [of _ e1] exI [of _ e2])
       (simp add: last_segment_sfs last_segment_dv)
  have p: "map_of example_law_page_data ''sfs'' \<noteq> None"
    by (simp add: example_law_page_data_def)
  with t [THEN conjunct2, THEN conjunct2, THEN conjunct1] obtain f1 f2 where
    "insert_law example_law_page_data ''sfs'' ''1998:204'' empty_law = Inr f1"
    "insert_law f1 ''sfs'' ''1998:204'' example_law = Inr f2"
    "lookup_law f2 ''sfs'' ''1998:204'' = Some example_law"
    by (elim impE exE conjE) assumption+
  then have third:
    "\<exists>d1 d2. insert_law example_law_page_data ''sfs'' ''1998:204'' empty_law = Inr d1 \<and>
      insert_law d1 ''sfs'' ''1998:204'' example_law = Inr d2 \<and>
      lookup_law d2 ''sfs'' ''1998:204'' = Some example_law"
    by (intro exI conjI)
  have ne': "(''sfs'', ''1998:204'') \<noteq> (''sfs'', ''2010:1'')"
    by simp
  with p t [THEN conjunct2, THEN conjunct2, THEN conjunct2] have fourth:
    "\<exists>d1 d2. insert_law example_law_page_data ''sfs'' ''1998:204'' empty_law = Inr d1 \<and>
      insert_law d1 ''sfs'' ''2010:1'' example_law = Inr d2 \<and>
      lookup_law d2 ''sfs'' ''1998:204'' = Some empty_law \<and>
      lookup_law d2 ''sfs'' ''2010:1'' = Some example_law"
    by (elim impE) (intro conjI, assumption+)
  from first ne second p third ne' fourth show ?thesis
    by (intro conjI)
qed

text \<open>
  Claim C5 as stated fails: parsing a second category page whose URL ends in the same
  segment sets the category's dictionary to \<^verbatim>\<open>{}\<close> again, a state change that maps no key
  to a law and that drops the law inserted before.
\<close>

theorem category_page_clears_laws:
  "callback init_data (CategoryPage ''https://lagen.nu/sfs'' []) = Inr [(''sfs'', [])] \<and>
   callback [(''sfs'', [])] (LawPage example_page) = Inr example_law_page_data \<and>
   lookup_law example_law_page_data ''sfs'' ''1998:204'' = Some example_law \<and>
   callback example_law_page_data (CategoryPage ''https://lagen.nu/dataset/sfs'' []) =
     Inr [(''sfs'', [])] \<and>
   lookup_law [(''sfs'', [])] ''sfs'' ''1998:204'' = None"
  by (simp add: parse_category_def init_data_def last_segment_def parse_law_def
      insert_law_def lookup_law_def example_law_page_data_def example_law_def
      example_page_def)

text \<open>
  Claim C5, amended. The corpus is written by two operations. Parsing a law page, in a
  category that a category page has set, maps exactly the one key (category, law name)
  to the law built from the page and leaves the lookup of every other key as it was: it
  removes no law. Parsing a category page sets the entry of its own category and leaves
  the laws of every other category as they were.
\<close>

theorem corpus_writes:
  "(map_of data (page_category response) \<noteq> None \<longrightarrow>
      (\<exists>data'. callback data (LawPage response) = Inr data' \<and>
         (\<forall>c n. lookup_law data' c n =
            (if c = page_category response \<and> n = last_segment (page_url response)
             then Some (build_law response) else lookup_law data c n)))) \<and>
   (\<exists>data'. callback data (CategoryPage url hrefs) = Inr data' \<and>
      map_of data' (last_segment url) \<noteq> None \<and>
      (\<forall>c n. c \<noteq> last_segment url \<longrightarrow> lookup_law data' c n = lookup_law data c n))"
proof (intro conjI impI)
  assume c: "map_of data (page_category response) \<noteq> None"
  from insert_law_returns [OF c] obtain data' where
    d: "insert_law data (page_category response) (last_segment (page_url response))
          (build_law response) = Inr data'"
    by (rule exE)
  have "\<forall>c n. lookup_law data' c n =
            (if c = page_category response \<and> n = last_segment (page_url response)
             then Some (build_law response) else lookup_law data c n)"
    by (simp add: lookup_law_insert [OF d])
  with d show "\<exists>data'. callback data (LawPage response) = Inr data' \<and>
         (\<forall>c n. lookup_law data' c n =
            (if c = page_category response \<and> n = last_segment (page_url response)
             then Some (build_law response) else lookup_law data c n))"
    by (simp add: parse_law_def)
next
  show "\<exists>data'. callback data (CategoryPage url hrefs) = Inr data' \<and>
      map_of data' (last_segment url) \<noteq> None \<and>
      (\<forall>c n. c \<noteq> last_segment url \<longrightarrow> lookup_law data' c n = lookup_law data c n)"
    by (simp add: map_of_parse_category lookup_law_parse_category)
qed

theorem corpus_writes_witness:
  "map_of [(''sfs'', [])] (page_category example_page) \<noteq> None \<and>
   (\<exists>data'. callback [(''sfs'', [])] (LawPage example_page) = Inr data' \<and>
      lookup_law data' ''sfs'' ''1998:204'' = Some example_law \<and>
      lookup_law data' ''sfs'' ''1999:1'' = None) \<and>
   ''sfs'' \<noteq> last_segment ''https://lagen.nu/dv'' \<and>
   (\<exists>data'. callback example_law_page_data (CategoryPage ''https://lagen.nu/dv'' []) =
        Inr data' \<and>
      lookup_law data' ''sfs'' ''1998:204'' = Some example_law)"
proof -
  note t = corpus_writes [of "[(''sfs'', [])]" example_page "''https://lagen.nu/dv''" "[]"]
  note t' = corpus_writes [of example_law_page_data example_page "''https://lagen.nu/dv''" "[]"]
  have p: "map_of [(''sfs'', [])] (page_category example_page) \<noteq> None"
    by (simp add: example_page_def)
  have ne: "''sfs'' \<noteq> last_segment ''https://lagen.nu/dv''"
    by (simp add: last_segment_def)
  from t p obtain data' where
    d: "callback [(''sfs'', [])] (LawPage example_page) = Inr data'" and
    l: "\<forall>c n. lookup_law data' c n =
            (if c = page_category example_page \<and> n = last_segment (page_url example_page)
             then Some (build_law example_page) else lookup_law [(''sfs'', [])] c n)"
    by (elim conjE exE impE) assumption+
  from l have "lookup_law data' ''sfs'' ''1998:204'' = Some example_law"
    by (simp add: example_page_def example_law_def last_segment_example)
  moreover from l have "lookup_law data' ''sfs'' ''1999:1'' = None"
    by (simp add: example_page_def last_segment_example lookup_law_def)
  ultimately have first:
    "\<exists>data'. callback [(''sfs'', [])] (LawPage example_page) = Inr data' \<and>
      lookup_law data' ''sfs'' ''1998:204'' = Some example_law \<and>
      lookup_law data' ''sfs'' ''1999:1'' = None"
    using d by (intro exI conjI)
  from t' obtain data'' where
    d': "callback example_law_page_data (CategoryPage ''https://lagen.nu/dv'' []) = Inr data''"
    and l': "\<forall>c n. c \<noteq> last_segment ''https://lagen.nu/dv'' \<longrightarrow>
         lookup_law data'' c n = lookup_law example_law_page_data c n"
    by (elim conjE exE)
  from l' ne have "lookup_law data'' ''sfs'' ''1998:204'' =
      lookup_law example_law_page_data ''sfs'' ''1998:204''"
    by simp
  then have "lookup_law data'' ''sfs'' ''1998:204'' = Some example_law"
    by (simp add: lookup_law_def example_law_page_data_def)
  with d' have second:
    "\<exists>data'. callback example_law_page_data (CategoryPage ''https://lagen.nu/dv'' []) =
        Inr data' \<and>
      lookup_law data' ''sfs'' ''1998:204'' = Some example_law"
    by (intro exI conjI)
  from p first ne second show ?thesis
    by (intro conjI)
qed

end
